theory Spec2Isabelle
  imports Complex_Main "HOL-Library.Product_Lexorder"
begin

section \<open>Numbers, constants and geometry helpers\<close>

text \<open>
  The Python sources compute with IEEE doubles. The embedding idealises them as exact
  reals: there is no rounding, no overflow and no NaN. Integers (grid coordinates,
  rectangle corners, frame counts, millisecond ticks) are \<open>int\<close>.
\<close>

type_synonym point = "real \<times> real"

text \<open>Your Choice/constants.py\<close>

definition SCREEN_WIDTH :: int where "SCREEN_WIDTH = 1000"
definition SCREEN_HEIGHT :: int where "SCREEN_HEIGHT = 800"
definition FPS :: int where "FPS = 60"
definition GRID_SIZE :: int where "GRID_SIZE = 20"
definition CAR_WIDTH :: int where "CAR_WIDTH = 30"
definition CAR_HEIGHT :: int where "CAR_HEIGHT = 40"
definition OBSTACLE_SIZE :: int where "OBSTACLE_SIZE = 40"
definition PREDICTION_STEPS :: int where "PREDICTION_STEPS = 60"
definition PREDICTION_INTERVAL :: int where "PREDICTION_INTERVAL = 5"
definition SAFE_DISTANCE :: real where "SAFE_DISTANCE = 100"
definition HIDE_TRIGGER_DISTANCE :: real where "HIDE_TRIGGER_DISTANCE = 400"
definition VERY_CLOSE_DISTANCE :: real where "VERY_CLOSE_DISTANCE = 80"
definition BUFFER_BEHIND_OBSTACLE :: real where
  "BUFFER_BEHIND_OBSTACLE = real_of_int CAR_HEIGHT * 1.5"
definition MAX_HIDE_SEARCH_OBSTACLES :: nat where "MAX_HIDE_SEARCH_OBSTACLES = 5"
definition OBSTACLE_SORT_WEIGHT_DIST :: real where "OBSTACLE_SORT_WEIGHT_DIST = 0.6"
definition OBSTACLE_SORT_WEIGHT_ANGLE :: real where "OBSTACLE_SORT_WEIGHT_ANGLE = 0.4"

text \<open>Python's \<open>int(x)\<close> on a float: truncation towards zero.\<close>

definition py_int :: "real \<Rightarrow> int" where
  "py_int v = (if 0 \<le> v then \<lfloor>v\<rfloor> else \<lceil>v\<rceil>)"

datatype error = ZeroDivisionError

text \<open>Python's float division raises on a zero divisor.\<close>

definition py_truediv :: "real \<Rightarrow> real \<Rightarrow> error + real" where
  "py_truediv a b = (if b = 0 then Inl ZeroDivisionError else Inr (a / b))"

section \<open>utils.py\<close>

definition distance :: "real \<Rightarrow> real \<Rightarrow> real \<Rightarrow> real \<Rightarrow> real" where
  "distance x1 y1 x2 y2 = sqrt ((x2 - x1)\<^sup>2 + (y2 - y1)\<^sup>2)"

text \<open>
  \<open>normalize_vector\<close> of Your Choice/utils.py, with the two divisions as fallible steps.
  The arguments are exact reals: the \<open>OverflowError\<close> that \<open>**\<close> raises on a huge component
  and the infinite or NaN results of IEEE doubles are not modelled.
\<close>

definition normalize_vector_checked :: "real \<Rightarrow> real \<Rightarrow> error + point" where
  "normalize_vector_checked vx vy =
     (let mag = distance 0 0 vx vy in
      if mag < 0.0001 then Inr (0, 0)
      else (case py_truediv vx mag of
              Inl e \<Rightarrow> Inl e
            | Inr a \<Rightarrow> (case py_truediv vy mag of
                          Inl e \<Rightarrow> Inl e
                        | Inr b \<Rightarrow> Inr (a, b))))"

text \<open>The same function as a total one, for the callers; see \<open>normalize_vector_checked_eq\<close>.\<close>

definition normalize_vector :: "real \<Rightarrow> real \<Rightarrow> point" where
  "normalize_vector vx vy =
     (let mag = distance 0 0 vx vy in
      if mag < 0.0001 then (0, 0) else (vx / mag, vy / mag))"

text \<open>
  \<open>normalize_vector\<close> of Hide/utils.py: the magnitude is raised to at least 0.01 and the
  vector is always divided by it.
\<close>

definition normalize_vector_hide_checked :: "real \<Rightarrow> real \<Rightarrow> error + point" where
  "normalize_vector_hide_checked vx vy =
     (let mag = max 0.01 (distance 0 0 vx vy) in
      (case py_truediv vx mag of
         Inl e \<Rightarrow> Inl e
       | Inr a \<Rightarrow> (case py_truediv vy mag of
                     Inl e \<Rightarrow> Inl e
                   | Inr b \<Rightarrow> Inr (a, b))))"

text \<open>
  \<open>pygame.Rect\<close>: integer left, top, width and height. \<open>collidepoint\<close> converts float
  arguments to integers by truncation and tests the half-open box: a point on the right
  or bottom edge is outside.
\<close>

record rect =
  rect_left :: int
  rect_top :: int
  rect_w :: int
  rect_h :: int

definition collidepoint :: "rect \<Rightarrow> real \<Rightarrow> real \<Rightarrow> bool" where
  "collidepoint r px py =
     (let ix = py_int px; iy = py_int py in
      rect_left r \<le> ix \<and> ix < rect_left r + rect_w r \<and>
      rect_top r \<le> iy \<and> iy < rect_top r + rect_h r)"

definition rect_centerx :: "rect \<Rightarrow> int" where
  "rect_centerx r = rect_left r + rect_w r div 2"

definition rect_centery :: "rect \<Rightarrow> int" where
  "rect_centery r = rect_top r + rect_h r div 2"

text \<open>obstacle.py: \<open>Obstacle(x, y, size)\<close> with its derived rectangle.\<close>

record obstacle =
  obs_x :: int
  obs_y :: int
  obs_size :: int

definition obs_rect :: "obstacle \<Rightarrow> rect" where
  "obs_rect ob = \<lparr>rect_left = obs_x ob, rect_top = obs_y ob,
                  rect_w = obs_size ob, rect_h = obs_size ob\<rparr>"

definition obs_center :: "obstacle \<Rightarrow> point" where
  "obs_center ob = (real_of_int (rect_centerx (obs_rect ob)),
                    real_of_int (rect_centery (obs_rect ob)))"

text \<open>
  The ray march of \<open>check_line_of_sight\<close>: the \<open>while current_dist < line_dist\<close> loop, with
  the inner loop over the obstacles as \<open>list_ex\<close>.
\<close>

definition step_size :: real where "step_size = 5"

function los_march :: "point \<Rightarrow> point \<Rightarrow> real \<Rightarrow> real \<Rightarrow> obstacle list \<Rightarrow> bool" where
  "los_march start nd line_dist current_dist obstacles =
     (if current_dist < line_dist then
        (if list_ex (\<lambda>ob. collidepoint (obs_rect ob)
                             (fst start + fst nd * current_dist)
                             (snd start + snd nd * current_dist)) obstacles
         then True
         else los_march start nd line_dist (current_dist + step_size) obstacles)
      else False)"
  by pat_completeness auto
termination
proof (relation "measure (\<lambda>(start, nd, line_dist, current_dist, obstacles).
                     nat \<lceil>(line_dist - current_dist) / (5::real)\<rceil>)", goal_cases)
  case 1
  show ?case by simp
next
  case (2 start nd line_dist current_dist obstacles)
  have r: "(line_dist - (current_dist + step_size)) / 5 = (line_dist - current_dist) / 5 - 1"
    by (simp add: step_size_def field_simps)
  have eq: "\<lceil>(line_dist - (current_dist + step_size)) / 5\<rceil>
              = \<lceil>(line_dist - current_dist) / 5\<rceil> - 1"
    unfolding r by simp
  have "0 < (line_dist - current_dist) / 5" using 2 by simp
  then have "0 < \<lceil>(line_dist - current_dist) / 5\<rceil>" by (simp add: ceiling_less_iff)
  with eq show ?case by simp
qed

declare los_march.simps [simp del]

definition check_line_of_sight :: "point \<Rightarrow> point \<Rightarrow> obstacle list \<Rightarrow> bool" where
  "check_line_of_sight start_pos end_pos obstacles =
     (let dx = fst end_pos - fst start_pos;
          dy = snd end_pos - snd start_pos;
          line_dist = distance (fst start_pos) (snd start_pos) (fst end_pos) (snd end_pos)
      in if line_dist < 1 then False
         else los_march start_pos (normalize_vector dx dy) line_dist step_size obstacles)"

section \<open>ai/prediction.py\<close>

definition predict_linear :: "point \<Rightarrow> point \<Rightarrow> real \<Rightarrow> point" where
  "predict_linear position velocity time_delta =
     (fst position + fst velocity * time_delta, snd position + snd velocity * time_delta)"

text \<open>
  \<open>predict_future_path\<close>; the module constant \<open>FPS\<close> is the first argument, so that the guard
  on it can be stated. The \<open>for i in range(1, num_points + 1)\<close> loop is a map over \<open>[1..num_points]\<close>.
\<close>

definition predict_future_path :: "int \<Rightarrow> point \<Rightarrow> point \<Rightarrow> int \<Rightarrow> int \<Rightarrow> point list" where
  "predict_future_path fps position velocity steps interval =
     (if fps \<le> 0 then []
      else if interval \<le> 0 then []
      else (let time_increment_per_frame = 1 / real_of_int fps;
                time_increment_per_point = time_increment_per_frame * real_of_int interval;
                num_points = steps div interval
            in map (\<lambda>i. predict_linear position velocity (time_increment_per_point * real_of_int i))
                 [1..num_points]))"

section \<open>Cars\<close>

text \<open>
  The fields of \<open>DefenderAI\<close> and \<open>PlayerCar\<close> that the decision code reads: the top-left
  corner, the size and the top speed.
\<close>

record car =
  car_x :: real
  car_y :: real
  car_width :: int
  car_height :: int
  car_max_speed :: real

definition get_position :: "car \<Rightarrow> point" where
  "get_position c = (car_x c + real_of_int (car_width c) / 2,
                     car_y c + real_of_int (car_height c) / 2)"

section \<open>ai/fsm.py\<close>

datatype DefenseState = IDLE | EVADE | PATROL | HIDE | RETURN_TO_SAFE_AREA

datatype fsm_error = IndexError

record fsm =
  current_state :: DefenseState
  patrol_points :: "point list"
  current_patrol_index :: nat
  last_target_pos :: "point option"
  current_hide_target :: "point option"
  state_entry_time :: int
  min_state_time :: int

text \<open>\<open>FSM.__init__\<close>\<close>

definition fsm_init :: fsm where
  "fsm_init = \<lparr>current_state = IDLE, patrol_points = [], current_patrol_index = 0,
                last_target_pos = None, current_hide_target = None,
                state_entry_time = 0, min_state_time = 500\<rparr>"

definition set_patrol_points :: "fsm \<Rightarrow> point list \<Rightarrow> fsm" where
  "set_patrol_points f points = f\<lparr>patrol_points := points, current_patrol_index := 0\<rparr>"

definition is_safe :: "point \<Rightarrow> point \<Rightarrow> obstacle list \<Rightarrow> bool" where
  "is_safe defense_pos player_pos obstacles = check_line_of_sight player_pos defense_pos obstacles"

text \<open>
  \<open>change_state\<close>; \<open>now\<close> is what \<open>pygame.time.get_ticks()\<close> returns, in milliseconds. One
  call of \<open>update\<close> reads the clock in \<open>update\<close> and again in \<open>change_state\<close>; the model
  gives both reads the same value.
\<close>

definition change_state :: "fsm \<Rightarrow> DefenseState \<Rightarrow> int \<Rightarrow> fsm" where
  "change_state f next_state now =
     (if current_state f \<noteq> next_state
      then f\<lparr>current_state := next_state, state_entry_time := now, current_hide_target := None\<rparr>
      else f)"

definition handle_idle :: "fsm \<Rightarrow> car \<Rightarrow> fsm \<times> point" where
  "handle_idle f defense_car = (f, get_position defense_car)"

definition handle_patrol :: "fsm \<Rightarrow> car \<Rightarrow> int \<Rightarrow> fsm_error + fsm \<times> point" where
  "handle_patrol f defense_car now =
     (if patrol_points f = [] then Inr (change_state f IDLE now, get_position defense_car)
      else if \<not> current_patrol_index f < length (patrol_points f) then Inl IndexError
      else (let defense_pos = get_position defense_car;
                target = patrol_points f ! current_patrol_index f;
                dist_to_target = distance (fst defense_pos) (snd defense_pos) (fst target) (snd target)
            in if dist_to_target < 30
               then (let i = (current_patrol_index f + 1) mod length (patrol_points f);
                         target' = patrol_points f ! i
                     in Inr (f\<lparr>current_patrol_index := i, last_target_pos := Some target'\<rparr>, target'))
               else Inr (f, target)))"

definition handle_evade :: "car \<Rightarrow> car \<Rightarrow> point" where
  "handle_evade defense_car player_car =
     (let player_pos = get_position player_car;
          defense_pos = get_position defense_car;
          dx = fst defense_pos - fst player_pos;
          dy = snd defense_pos - snd player_pos;
          nd = normalize_vector dx dy;
          target_x = fst defense_pos + fst nd * SAFE_DISTANCE * 1.1;
          target_y = snd defense_pos + snd nd * SAFE_DISTANCE * 1.1;
          margin = real_of_int (car_width defense_car)
      in (max margin (min target_x (real_of_int SCREEN_WIDTH - margin)),
          max margin (min target_y (real_of_int SCREEN_HEIGHT - margin))))"

text \<open>
  \<open>find_best_hiding_spot\<close>. \<open>math.hypot\<close> is \<open>distance 0 0\<close>, \<open>math.acos\<close> is \<open>arccos\<close>,
  \<open>math.degrees\<close> multiplies by \<open>180 / pi\<close>. \<open>list.sort(key=...)\<close> is stable, as \<open>sort_key\<close> is.
\<close>

definition angle_deg_of :: "point \<Rightarrow> point \<Rightarrow> point \<Rightarrow> real" where
  "angle_deg_of defense_pos player_pos obs_c =
     (let vec_def_ply = (fst player_pos - fst defense_pos, snd player_pos - snd defense_pos);
          vec_def_obs = (fst obs_c - fst defense_pos, snd obs_c - snd defense_pos);
          mag_ply = distance 0 0 (fst vec_def_ply) (snd vec_def_ply);
          mag_obs = distance 0 0 (fst vec_def_obs) (snd vec_def_obs)
      in if mag_ply > 0.1 \<and> mag_obs > 0.1
         then (let dot = fst vec_def_ply * fst vec_def_obs + snd vec_def_ply * snd vec_def_obs;
                   angle_cos = max (- 1) (min 1 (dot / (mag_ply * mag_obs)));
                   angle_rad = arccos angle_cos
               in angle_rad * 180 / pi)
         else 180)"

definition candidate_obstacles :: "point \<Rightarrow> point \<Rightarrow> obstacle list \<Rightarrow> (obstacle \<times> real) list" where
  "candidate_obstacles defense_pos player_pos obstacles =
     concat (map (\<lambda>obs.
       (let obs_c = obs_center obs;
            dist_def_obs = distance (fst defense_pos) (snd defense_pos) (fst obs_c) (snd obs_c);
            max_relevant_dist = HIDE_TRIGGER_DISTANCE * 1.5
        in if dist_def_obs > max_relevant_dist then []
           else (let dist_ply_obs = distance (fst player_pos) (snd player_pos) (fst obs_c) (snd obs_c);
                     dist_ply_def = distance (fst player_pos) (snd player_pos)
                                      (fst defense_pos) (snd defense_pos)
                 in if dist_ply_obs < dist_ply_def * 1.2 \<or> dist_def_obs < dist_ply_def
                    then [(obs, dist_def_obs * OBSTACLE_SORT_WEIGHT_DIST
                                + angle_deg_of defense_pos player_pos obs_c * OBSTACLE_SORT_WEIGHT_ANGLE)]
                    else []))) obstacles)"

definition potential_spots :: "point \<Rightarrow> point \<Rightarrow> obstacle list \<Rightarrow> obstacle list \<Rightarrow> (point \<times> real) list" where
  "potential_spots defense_pos player_pos obstacles cands =
     concat (map (\<lambda>obs.
       (let obs_c = obs_center obs;
            dx_po = fst obs_c - fst player_pos;
            dy_po = snd obs_c - snd player_pos;
            nd = normalize_vector dx_po dy_po;
            buffer = real_of_int (obs_size obs) / 2 + BUFFER_BEHIND_OBSTACLE;
            hide_x = fst obs_c + fst nd * buffer;
            hide_y = snd obs_c + snd nd * buffer;
            margin = 10
        in if \<not> (margin < hide_x \<and> hide_x < real_of_int SCREEN_WIDTH - margin \<and>
                  margin < hide_y \<and> hide_y < real_of_int SCREEN_HEIGHT - margin) then []
           else if is_safe (hide_x, hide_y) player_pos obstacles
                then [((hide_x, hide_y),
                       distance (fst defense_pos) (snd defense_pos) hide_x hide_y)]
                else [])) cands)"

definition find_best_hiding_spot :: "car \<Rightarrow> car \<Rightarrow> obstacle list \<Rightarrow> point option" where
  "find_best_hiding_spot defense_car player_car obstacles =
     (let defense_pos = get_position defense_car;
          player_pos = get_position player_car;
          cands = sort_key snd (candidate_obstacles defense_pos player_pos obstacles);
          spots = potential_spots defense_pos player_pos obstacles
                    (map fst (take MAX_HIDE_SEARCH_OBSTACLES cands))
      in (case sort_key snd spots of
            [] \<Rightarrow> None
          | best # _ \<Rightarrow> Some (fst best)))"

text \<open>
  \<open>handle_hide\<close> calls itself after it has cleared a hide target that became unsafe; the
  second call finds no target and goes to the search.
\<close>

function handle_hide :: "fsm \<Rightarrow> car \<Rightarrow> car \<Rightarrow> obstacle list \<Rightarrow> fsm \<times> point" where
  "handle_hide f defense_car player_car obstacles =
     (let defense_pos = get_position defense_car;
          player_pos = get_position player_car;
          near = (case current_hide_target f of
                    None \<Rightarrow> False
                  | Some t \<Rightarrow> distance (fst defense_pos) (snd defense_pos) (fst t) (snd t) < 20)
      in if near \<and> is_safe defense_pos player_pos obstacles then (f, defense_pos)
         else (let f1 = (if near then f\<lparr>current_hide_target := None\<rparr> else f)
               in (case current_hide_target f1 of
                     None \<Rightarrow>
                       (case find_best_hiding_spot defense_car player_car obstacles of
                          Some best_spot \<Rightarrow> (f1\<lparr>current_hide_target := Some best_spot\<rparr>, best_spot)
                        | None \<Rightarrow> (f1, handle_evade defense_car player_car))
                   | Some t \<Rightarrow>
                       if is_safe t player_pos obstacles then (f1, t)
                       else handle_hide (f1\<lparr>current_hide_target := None\<rparr>)
                              defense_car player_car obstacles)))"
  by pat_completeness auto
termination
  by (relation "measure (\<lambda>(f, defense_car, player_car, obstacles).
                   case current_hide_target f of None \<Rightarrow> 0 | Some t \<Rightarrow> 1)")
     (auto split: option.splits if_splits)

declare handle_hide.simps [simp del]

definition handle_return_to_safe_area :: "fsm \<Rightarrow> car \<Rightarrow> int \<Rightarrow> fsm \<times> point" where
  "handle_return_to_safe_area f defense_car now =
     (let target_x = real_of_int SCREEN_WIDTH / 2;
          target_y = real_of_int SCREEN_HEIGHT / 2;
          defense_pos = get_position defense_car
      in if distance (fst defense_pos) (snd defense_pos) target_x target_y < 50
         then (change_state f (if patrol_points f \<noteq> [] then PATROL else IDLE) now,
               (target_x, target_y))
         else (f, (target_x, target_y)))"

text \<open>The transition logic of \<open>update\<close>: the value of \<open>next_state\<close> before it is applied.\<close>

definition next_state_of :: "fsm \<Rightarrow> real \<Rightarrow> bool \<Rightarrow> int \<Rightarrow> DefenseState" where
  "next_state_of f dist_to_player is_currently_safe now =
     (let time_in_state = now - state_entry_time f;
          allow_transition = (time_in_state \<ge> min_state_time f)
      in if dist_to_player < VERY_CLOSE_DISTANCE then EVADE
         else if allow_transition then
           (if \<not> is_currently_safe \<and> dist_to_player < HIDE_TRIGGER_DISTANCE then HIDE
            else if is_currently_safe \<and> current_state f = HIDE then
              (if dist_to_player > HIDE_TRIGGER_DISTANCE * 1.2
               then (if patrol_points f \<noteq> [] then PATROL else IDLE)
               else HIDE)
            else if current_state f = HIDE \<and> \<not> is_currently_safe then HIDE
            else if dist_to_player > HIDE_TRIGGER_DISTANCE * 1.1 then
              (if current_state f \<noteq> PATROL \<and> current_state f \<noteq> IDLE
               then (if patrol_points f \<noteq> [] then PATROL else IDLE)
               else current_state f)
            else if (current_state f = PATROL \<or> current_state f = IDLE) \<and>
                    dist_to_player < HIDE_TRIGGER_DISTANCE then HIDE
            else current_state f)
         else current_state f)"

text \<open>The handler table of \<open>__init__\<close>, applied to the state after the transition.\<close>

definition run_handler :: "fsm \<Rightarrow> car \<Rightarrow> car \<Rightarrow> obstacle list \<Rightarrow> int \<Rightarrow> fsm_error + fsm \<times> point" where
  "run_handler f defense_car player_car obstacles now =
     (case current_state f of
        IDLE \<Rightarrow> Inr (handle_idle f defense_car)
      | EVADE \<Rightarrow> Inr (f, handle_evade defense_car player_car)
      | PATROL \<Rightarrow> handle_patrol f defense_car now
      | HIDE \<Rightarrow> Inr (handle_hide f defense_car player_car obstacles)
      | RETURN_TO_SAFE_AREA \<Rightarrow> Inr (handle_return_to_safe_area f defense_car now))"

text \<open>
  \<open>update\<close>. A handler always returns a pair of reals, which is neither \<open>None\<close> nor NaN, so
  the validation stores it in \<open>last_target_pos\<close>. The last block of the source, which
  refreshes \<open>current_hide_target\<close>, runs when the handler that was dispatched is
  \<open>handle_hide\<close>, the state is still \<open>HIDE\<close> and the target differs from the stored one.
\<close>

definition update :: "fsm \<Rightarrow> car \<Rightarrow> car \<Rightarrow> obstacle list \<Rightarrow> int \<Rightarrow> fsm_error + fsm \<times> point" where
  "update f defense_car player_car obstacles now =
     (let defense_pos = get_position defense_car;
          player_pos = get_position player_car;
          dist_to_player = distance (fst player_pos) (snd player_pos)
                             (fst defense_pos) (snd defense_pos);
          is_currently_safe = is_safe defense_pos player_pos obstacles;
          next_state = next_state_of f dist_to_player is_currently_safe now;
          f1 = (if next_state \<noteq> current_state f then change_state f next_state now else f);
          dispatched = current_state f1
      in (case run_handler f1 defense_car player_car obstacles now of
            Inl e \<Rightarrow> Inl e
          | Inr (f2, target_position) \<Rightarrow>
              (let f3 = f2\<lparr>last_target_pos := Some target_position\<rparr>;
                   f4 = (if current_state f3 = HIDE \<and> dispatched = HIDE \<and>
                            Some target_position \<noteq> last_target_pos f3
                         then (case find_best_hiding_spot defense_car player_car obstacles of
                                 Some spot \<Rightarrow> f3\<lparr>current_hide_target := Some spot\<rparr>
                               | None \<Rightarrow> f3)
                         else f3)
               in Inr (f4, target_position))))"

text \<open>
  A run of the FSM: one \<open>update\<close> per tick. The run stops at the first error, as the
  exception would; otherwise it returns the FSM after each tick.
\<close>

record tick =
  tick_now :: int
  tick_defender :: car
  tick_player :: car
  tick_obstacles :: "obstacle list"

definition tick_distance :: "tick \<Rightarrow> real" where
  "tick_distance t =
     distance (fst (get_position (tick_player t))) (snd (get_position (tick_player t)))
              (fst (get_position (tick_defender t))) (snd (get_position (tick_defender t)))"

fun run :: "fsm \<Rightarrow> tick list \<Rightarrow> fsm_error + fsm list" where
  "run f [] = Inr []"
| "run f (t # ts) =
     (case update f (tick_defender t) (tick_player t) (tick_obstacles t) (tick_now t) of
        Inl e \<Rightarrow> Inl e
      | Inr (f', target) \<Rightarrow>
          (case run f' ts of Inl e \<Rightarrow> Inl e | Inr fs \<Rightarrow> Inr (f' # fs)))"

text \<open>The clock values of the ticks at which the recorded state differs from the one before.\<close>

fun change_times :: "DefenseState \<Rightarrow> (int \<times> DefenseState) list \<Rightarrow> int list" where
  "change_times s [] = []"
| "change_times s ((now, s') # rest) =
     (if s' \<noteq> s then now # change_times s' rest else change_times s' rest)"

fun dwell_respected :: "int \<Rightarrow> int list \<Rightarrow> bool" where
  "dwell_respected d [] = True"
| "dwell_respected d [a] = True"
| "dwell_respected d (a # b # rest) = (b - a \<ge> d \<and> dwell_respected d (b # rest))"

section \<open>defender_ai.py: the steering of \<open>calculate_movement_velocity\<close>\<close>

definition target_speed_of :: "car \<Rightarrow> DefenseState \<Rightarrow> real \<Rightarrow> real" where
  "target_speed_of c st dist_to_target =
     (if st = HIDE \<and> dist_to_target < real_of_int (car_width c * 2)
      then max 1 (car_max_speed c * (dist_to_target / real_of_int (car_width c * 4)))
      else if dist_to_target < 10 then 0
      else car_max_speed c)"

text \<open>
  The search for the cover obstacle. Obstacles are Python objects compared by identity, so
  the model names an obstacle by its position in the list. \<open>min_d = None\<close> stands for
  \<open>float('inf')\<close>.
\<close>

fun find_cover :: "point \<Rightarrow> obstacle list \<Rightarrow> nat \<Rightarrow> real option \<Rightarrow> nat option \<Rightarrow> nat option" where
  "find_cover target_pt [] i min_d cover = cover"
| "find_cover target_pt (obs # rest) i min_d cover =
     (let d = distance (fst target_pt) (snd target_pt) (fst (obs_center obs)) (snd (obs_center obs))
      in if d < real_of_int (obs_size obs) / 2 + BUFFER_BEHIND_OBSTACLE * 1.2 \<and>
            (case min_d of None \<Rightarrow> True | Some m \<Rightarrow> d < m)
         then find_cover target_pt rest (i + 1) (Some d) (Some i)
         else find_cover target_pt rest (i + 1) min_d cover)"

text \<open>The loop that accumulates \<open>(avoidance_dx, avoidance_dy, avoidance_active)\<close>.\<close>

fun avoidance :: "point \<Rightarrow> real \<Rightarrow> nat option \<Rightarrow> obstacle list \<Rightarrow> nat
                    \<Rightarrow> real \<times> real \<times> bool \<Rightarrow> real \<times> real \<times> bool" where
  "avoidance center radius cover [] i acc = acc"
| "avoidance center radius cover (obstacle # rest) i (avoidance_dx, avoidance_dy, active) =
     (let avoidance_modifier = (if cover = Some i then 0.2 else 1);
          oc = obs_center obstacle;
          obstacle_dist = distance (fst center) (snd center) (fst oc) (snd oc)
      in if obstacle_dist < radius
         then (let na = normalize_vector (fst center - fst oc) (snd center - snd oc);
                   strength = max 0 ((1 - obstacle_dist / radius) * avoidance_modifier)
               in avoidance center radius cover rest (i + 1)
                    (avoidance_dx + fst na * strength, avoidance_dy + snd na * strength,
                     active \<or> strength > 0.01))
         else avoidance center radius cover rest (i + 1) (avoidance_dx, avoidance_dy, active))"

text \<open>The blend weight chosen from \<open>opposition_dot\<close>, in \<open>DefenderAI\<close> (Your Choice).\<close>

definition avoid_weight :: "real \<Rightarrow> real" where
  "avoid_weight opposition_dot =
     (if opposition_dot < - 0.7 then 0.2
      else if opposition_dot < - 0.2 then 0.4
      else 0.8)"

definition opposition_dot_of :: "point \<Rightarrow> real \<times> real \<times> bool \<Rightarrow> real" where
  "opposition_dot_of nt av =
     (let avoid_mag = distance 0 0 (fst av) (fst (snd av))
      in fst nt * (fst av / avoid_mag) + snd nt * (fst (snd av) / avoid_mag))"

text \<open>The block "Combine Target Direction with Avoidance".\<close>

definition blend_direction :: "point \<Rightarrow> real \<times> real \<times> bool \<Rightarrow> point" where
  "blend_direction nt av =
     (if snd (snd av)
      then (let avoid_mag = distance 0 0 (fst av) (fst (snd av))
            in if avoid_mag > 0.01
               then (let norm_av_dx = fst av / avoid_mag;
                         norm_av_dy = fst (snd av) / avoid_mag;
                         w = avoid_weight (opposition_dot_of nt av)
                     in normalize_vector (fst nt * (1 - w) + norm_av_dx * w)
                                         (snd nt * (1 - w) + norm_av_dy * w))
               else nt)
      else nt)"

definition steering_inputs :: "car \<Rightarrow> DefenseState \<Rightarrow> point option \<Rightarrow> point \<Rightarrow> obstacle list
                                \<Rightarrow> point \<times> (real \<times> real \<times> bool)" where
  "steering_inputs c st hide_target move_target_pos obstacles =
     (let center = get_position c;
          target_dx = fst move_target_pos - fst center;
          target_dy = snd move_target_pos - snd center;
          nt = normalize_vector target_dx target_dy;
          base_avoidance_radius = real_of_int (car_width c) * 2.5;
          hide_target_ref = (if st = HIDE then hide_target else None);
          cover = (case hide_target_ref of
                     None \<Rightarrow> None
                   | Some target_pt \<Rightarrow> find_cover target_pt obstacles 0 None None)
      in (nt, avoidance center base_avoidance_radius cover obstacles 0 (0, 0, False)))"

definition calculate_movement_velocity :: "car \<Rightarrow> DefenseState \<Rightarrow> point option \<Rightarrow> point option
                                             \<Rightarrow> obstacle list \<Rightarrow> point" where
  "calculate_movement_velocity c st hide_target move_target obstacles =
     (case move_target of
        None \<Rightarrow> (0, 0)
      | Some move_target_pos \<Rightarrow>
          (let center = get_position c;
               dist_to_target = distance 0 0 (fst move_target_pos - fst center)
                                            (snd move_target_pos - snd center);
               target_speed = target_speed_of c st dist_to_target;
               inputs = steering_inputs c st hide_target move_target_pos obstacles;
               final = blend_direction (fst inputs) (snd inputs)
           in (fst final * target_speed, snd final * target_speed)))"

section \<open>Attack/defensive_car.py: the steering of \<open>move_to_target\<close>\<close>

text \<open>
  \<open>DefenseCar.move_to_target\<close> of the Attack prototype. Its helpers \<open>distance\<close> and
  \<open>normalize_vector\<close> come from the \<open>utils\<close> module of that prototype, which is not among the
  sources: they are the parameters \<open>distance_fn\<close> and \<open>normalize_fn\<close>. The constants
  \<open>CAR_WIDTH\<close>, \<open>CAR_HEIGHT\<close> and \<open>BUFFER_BEHIND_OBSTACLE\<close> of Attack/constants.py have the same
  values as above. An obstacle has the fields \<open>x\<close>, \<open>y\<close> and \<open>size\<close>; obstacles are compared by
  identity, so the cover obstacle is named by its position in the list, and \<open>min_d = None\<close>
  stands for \<open>float('inf')\<close>.
\<close>

text \<open>The search for the obstacle closest to the target position.\<close>

fun closest_to_target :: "(real \<Rightarrow> real \<Rightarrow> real \<Rightarrow> real \<Rightarrow> real) \<Rightarrow> point \<Rightarrow> obstacle list \<Rightarrow> nat
                            \<Rightarrow> real option \<Rightarrow> nat option \<Rightarrow> real option \<times> nat option" where
  "closest_to_target distance_fn target_pos [] i min_d cover = (min_d, cover)"
| "closest_to_target distance_fn target_pos (obs # rest) i min_d cover =
     (let obs_center_x = real_of_int (obs_x obs) + real_of_int (obs_size obs) / 2;
          obs_center_y = real_of_int (obs_y obs) + real_of_int (obs_size obs) / 2;
          d = distance_fn (fst target_pos) (snd target_pos) obs_center_x obs_center_y
      in if (case min_d of None \<Rightarrow> True | Some m \<Rightarrow> d < m)
         then closest_to_target distance_fn target_pos rest (i + 1) (Some d) (Some i)
         else closest_to_target distance_fn target_pos rest (i + 1) min_d cover)"

text \<open>
  The avoidance loop. The division by the avoidance radius is a fallible step: the radius is
  \<open>self.width * 2.5\<close>.
\<close>

fun attack_avoidance :: "(real \<Rightarrow> real \<Rightarrow> real \<Rightarrow> real \<Rightarrow> real) \<Rightarrow> (real \<Rightarrow> real \<Rightarrow> point) \<Rightarrow> point
                           \<Rightarrow> car \<Rightarrow> real option \<times> nat option \<Rightarrow> obstacle list \<Rightarrow> nat
                           \<Rightarrow> real \<times> real \<times> bool \<Rightarrow> error + real \<times> real \<times> bool" where
  "attack_avoidance distance_fn normalize_fn center c cov [] i acc = Inr acc"
| "attack_avoidance distance_fn normalize_fn center c cov (obstacle # rest) i
       (avoidance_dx, avoidance_dy, active) =
     (let is_likely_cover =
            (snd cov = Some i \<and>
             (case fst cov of
                None \<Rightarrow> False
              | Some min_dist_target_obs \<Rightarrow>
                  min_dist_target_obs
                    < (real_of_int (obs_size obstacle) / 2 + BUFFER_BEHIND_OBSTACLE) * 1.2));
          avoidance_modifier = (if is_likely_cover then 0.3 else 1);
          obstacle_center_x = real_of_int (obs_x obstacle) + real_of_int (obs_size obstacle) / 2;
          obstacle_center_y = real_of_int (obs_y obstacle) + real_of_int (obs_size obstacle) / 2;
          obstacle_dist = distance_fn (fst center) (snd center) obstacle_center_x obstacle_center_y;
          effective_avoidance_radius = real_of_int (car_width c) * 2.5
      in if obstacle_dist < effective_avoidance_radius
         then (let away = normalize_fn (fst center - obstacle_center_x)
                                       (snd center - obstacle_center_y)
               in case py_truediv obstacle_dist effective_avoidance_radius of
                    Inl e \<Rightarrow> Inl e
                  | Inr q \<Rightarrow>
                      (let strength = (1 - q) * avoidance_modifier
                       in if strength > 0
                          then attack_avoidance distance_fn normalize_fn center c cov rest (i + 1)
                                 (avoidance_dx + fst away * strength,
                                  avoidance_dy + snd away * strength, True)
                          else attack_avoidance distance_fn normalize_fn center c cov rest (i + 1)
                                 (avoidance_dx, avoidance_dy, active)))
         else attack_avoidance distance_fn normalize_fn center c cov rest (i + 1)
                (avoidance_dx, avoidance_dy, active))"

text \<open>
  The part of \<open>move_to_target\<close> before the block "Combine Target Direction with Avoidance":
  the target direction, the target speed and the result of the avoidance loop.
\<close>

definition move_to_target_inputs :: "(real \<Rightarrow> real \<Rightarrow> real \<Rightarrow> real \<Rightarrow> real) \<Rightarrow> (real \<Rightarrow> real \<Rightarrow> point)
                                      \<Rightarrow> car \<Rightarrow> point \<Rightarrow> obstacle list
                                      \<Rightarrow> point \<times> real \<times> (error + real \<times> real \<times> bool)" where
  "move_to_target_inputs distance_fn normalize_fn c target_pos obstacles =
     (let car_center_x = car_x c + real_of_int (car_width c) / 2;
          car_center_y = car_y c + real_of_int (car_height c) / 2;
          dx = fst target_pos - car_center_x;
          dy = snd target_pos - car_center_y;
          dst = max 0.1 (distance_fn 0 0 dx dy);
          nt = normalize_fn dx dy;
          target_speed = min (car_max_speed c) (dst / 10);
          cov = closest_to_target distance_fn target_pos obstacles 0 None None
      in (nt, target_speed,
          attack_avoidance distance_fn normalize_fn (car_center_x, car_center_y) c cov obstacles 0
            (0, 0, False)))"

text \<open>The velocity \<open>(vx, vy)\<close> that \<open>move_to_target\<close> sets.\<close>

definition move_to_target :: "(real \<Rightarrow> real \<Rightarrow> real \<Rightarrow> real \<Rightarrow> real) \<Rightarrow> (real \<Rightarrow> real \<Rightarrow> point)
                               \<Rightarrow> car \<Rightarrow> point option \<Rightarrow> obstacle list \<Rightarrow> error + point" where
  "move_to_target distance_fn normalize_fn c target obstacles =
     (case target of
        None \<Rightarrow> Inr (0, 0)
      | Some target_pos \<Rightarrow>
          (case move_to_target_inputs distance_fn normalize_fn c target_pos obstacles of
             (nt, target_speed, Inl e) \<Rightarrow> Inl e
           | (nt, target_speed, Inr (avoidance_dx, avoidance_dy, avoidance_active)) \<Rightarrow>
               (let final =
                      (if avoidance_active
                       then (let avoidance_mag = sqrt (avoidance_dx\<^sup>2 + avoidance_dy\<^sup>2)
                             in if avoidance_mag > 0.01
                                then (let norm_av_dx = avoidance_dx / avoidance_mag;
                                          norm_av_dy = avoidance_dy / avoidance_mag;
                                          opposition_dot = fst nt * norm_av_dx + snd nt * norm_av_dy;
                                          w = (if opposition_dot < - 0.5 then 0.1
                                               else if opposition_dot < 0 then 0.3
                                               else 0.7)
                                      in normalize_fn (fst nt * (1 - w) + norm_av_dx * w)
                                                      (snd nt * (1 - w) + norm_av_dy * w))
                                else nt)
                       else nt)
                in Inr (fst final * target_speed, snd final * target_speed))))"

section \<open>ai/pathfinding.py\<close>

text \<open>
  The grid is \<open>self.grid\<close>, indexed \<open>grid[gx][gy]\<close>, 1 for a blocked cell. Every lookup of
  the source is made at a node inside the bounds, so no negative index wraps around.
  \<open>heapq\<close> is modelled by a list: a push appends, a pop removes the least tuple in the
  lexicographic order of Python's tuple comparison. That order is total and equal tuples
  are indistinguishable, so the sequence of popped tuples does not depend on the layout of
  the heap.
\<close>

type_synonym node = "int \<times> int"
type_synonym grid = "int list list"

definition grid_width :: int where "grid_width = SCREEN_WIDTH div GRID_SIZE"
definition grid_height :: int where "grid_height = SCREEN_HEIGHT div GRID_SIZE"

definition directions :: "(int \<times> int) list" where
  "directions = [(0, - 1), (1, 0), (0, 1), (- 1, 0), (1, - 1), (1, 1), (- 1, 1), (- 1, - 1)]"

definition move_costs :: "((int \<times> int) \<times> real) list" where
  "move_costs = [((0, - 1), 1), ((1, 0), 1), ((0, 1), 1), ((- 1, 0), 1),
                 ((1, - 1), 1.414), ((1, 1), 1.414), ((- 1, 1), 1.414), ((- 1, - 1), 1.414)]"

text \<open>
  \<open>self.move_costs[(dx, dy)]\<close>; the key is always one of \<open>directions\<close>, all of which are
  in the dictionary, so the default is never taken.
\<close>

definition move_cost :: "int \<times> int \<Rightarrow> real" where
  "move_cost d = (case map_of move_costs d of Some c \<Rightarrow> c | None \<Rightarrow> 0)"

definition world_to_grid :: "point \<Rightarrow> node" where
  "world_to_grid pos = (\<lfloor>fst pos / real_of_int GRID_SIZE\<rfloor>, \<lfloor>snd pos / real_of_int GRID_SIZE\<rfloor>)"

definition grid_to_world :: "node \<Rightarrow> point" where
  "grid_to_world n = (real_of_int (fst n * GRID_SIZE) + real_of_int GRID_SIZE / 2,
                      real_of_int (snd n * GRID_SIZE) + real_of_int GRID_SIZE / 2)"

definition cell :: "grid \<Rightarrow> node \<Rightarrow> int" where
  "cell g n = g ! nat (fst n) ! nat (snd n)"

definition in_bounds :: "node \<Rightarrow> bool" where
  "in_bounds n = (0 \<le> fst n \<and> fst n < grid_width \<and> 0 \<le> snd n \<and> snd n < grid_height)"

definition heuristic :: "node \<Rightarrow> node \<Rightarrow> real" where
  "heuristic a b = sqrt (real_of_int ((fst a - fst b)\<^sup>2 + (snd a - snd b)\<^sup>2))"

definition heappop :: "'a::linorder list \<Rightarrow> ('a \<times> 'a list) option" where
  "heappop q = (case q of [] \<Rightarrow> None
                | x # xs \<Rightarrow> (let m = fold min xs x in Some (m, remove1 m q)))"

type_synonym entry = "real \<times> real \<times> node"

text \<open>One round of the neighbour loop of \<open>_find_nearest_free_cell\<close>.\<close>

definition nfc_visit :: "node \<Rightarrow> real \<Rightarrow> node \<Rightarrow> entry list \<times> node set \<Rightarrow> int \<times> int
                           \<Rightarrow> entry list \<times> node set" where
  "nfc_visit target dst xy qv d =
     (let neighbor = (fst xy + fst d, snd xy + snd d) in
      if in_bounds neighbor \<and> neighbor \<notin> snd qv
      then (let neighbor_dist = dst + move_cost d;
                neighbor_h = heuristic neighbor target;
                neighbor_prio = neighbor_dist + neighbor_h
            in (fst qv @ [(neighbor_prio, neighbor_dist, neighbor)], insert neighbor (snd qv)))
      else qv)"

lemma fold_min_mem: "fold min xs x \<in> set (x # xs)"
proof (induction xs arbitrary: x)
  case Nil
  then show ?case by simp
next
  case (Cons y ys)
  have "fold min ys (min y x) \<in> set (min y x # ys)" by (rule Cons.IH)
  moreover have "min y x = y \<or> min y x = x" by (simp add: min_def)
  ultimately show ?case by auto
qed

lemma heappop_Some:
  assumes "heappop q = Some (m, rest)"
  shows "m \<in> set q" and "rest = remove1 m q" and "Suc (length rest) = length q"
proof -
  from assms obtain x xs where q: "q = x # xs" and m: "m = fold min xs x" and r: "rest = remove1 m q"
    by (auto simp: heappop_def Let_def split: list.splits)
  show mq: "m \<in> set q" using q m fold_min_mem [of xs x] by simp
  show "rest = remove1 m q" by (rule r)
  have "0 < length q" using q by simp
  then show "Suc (length rest) = length q" using mq r by (simp add: length_remove1)
qed

lemma finite_in_bounds: "finite {n. in_bounds n}"
proof -
  have "{n. in_bounds n} \<subseteq> {0..<grid_width} \<times> {0..<grid_height}"
    by (auto simp: in_bounds_def)
  then show ?thesis by (rule finite_subset) simp
qed

definition nfc_measure :: "entry list \<times> node set \<Rightarrow> nat" where
  "nfc_measure qv = card ({n. in_bounds n} - snd qv) + length (fst qv)"

lemma nfc_visit_measure: "nfc_measure (nfc_visit target dst xy qv d) = nfc_measure qv"
proof (cases "in_bounds (fst xy + fst d, snd xy + snd d) \<and> (fst xy + fst d, snd xy + snd d) \<notin> snd qv")
  case False
  then have "nfc_visit target dst xy qv d = qv" by (auto simp: nfc_visit_def Let_def)
  then show ?thesis by simp
next
  case True
  let ?n = "(fst xy + fst d, snd xy + snd d)"
  have mem: "?n \<in> {n. in_bounds n} - snd qv" using True by simp
  have fin: "finite ({n. in_bounds n} - snd qv)" using finite_in_bounds by simp
  have "{n. in_bounds n} - insert ?n (snd qv) = ({n. in_bounds n} - snd qv) - {?n}" by auto
  then have "card ({n. in_bounds n} - insert ?n (snd qv)) = card ({n. in_bounds n} - snd qv) - 1"
    using mem fin by simp
  moreover have "0 < card ({n. in_bounds n} - snd qv)" using mem fin by (auto simp: card_gt_0_iff)
  ultimately show ?thesis using True by (simp add: nfc_visit_def Let_def nfc_measure_def)
qed

lemma nfc_fold_measure: "nfc_measure (foldl (nfc_visit target dst xy) qv ds) = nfc_measure qv"
  by (induction ds arbitrary: qv) (simp_all add: nfc_visit_measure)

function nfc_loop :: "grid \<Rightarrow> node \<Rightarrow> real \<Rightarrow> entry list \<times> node set \<Rightarrow> node option" where
  "nfc_loop g target search_radius qv =
     (case heappop (fst qv) of
        None \<Rightarrow> None
      | Some ((prio, dst, xy), rest) \<Rightarrow>
          if cell g xy = 0 then Some xy
          else if dst \<ge> search_radius then nfc_loop g target search_radius (rest, snd qv)
          else nfc_loop g target search_radius
                 (foldl (nfc_visit target dst xy) (rest, snd qv) directions))"
  by pat_completeness auto
termination
proof (relation "measure (\<lambda>(g, target, search_radius, qv). nfc_measure qv)", goal_cases)
  case 1
  show ?case by simp
next
  case 2
  then show ?case by (auto simp: nfc_measure_def dest: heappop_Some(3))
next
  case 3
  then show ?case
    by (clarsimp simp: nfc_fold_measure) (auto simp: nfc_measure_def dest: heappop_Some(3))
qed

declare nfc_loop.simps [simp del]

definition find_nearest_free_cell :: "grid \<Rightarrow> node \<Rightarrow> node \<Rightarrow> node option" where
  "find_nearest_free_cell g start_node target_node =
     nfc_loop g target_node (real_of_int (max grid_width grid_height div 2))
       ([(heuristic start_node target_node, 0, start_node)], {start_node})"


text \<open>
  The A* search. \<open>g_score[current_node]\<close> raises \<open>KeyError\<close> when the key is missing; the
  result of the search is \<open>None\<close> when the loop of \<open>_reconstruct_path\<close> does not end.
\<close>

datatype path_error = KeyError

record astar =
  open_list :: "entry list"
  closed_set :: "node set"
  came_from :: "node \<rightharpoonup> node option"
  g_score :: "node \<rightharpoonup> real"

definition astar_relax :: "grid \<Rightarrow> node \<Rightarrow> node \<Rightarrow> astar \<Rightarrow> int \<times> int \<Rightarrow> path_error + astar" where
  "astar_relax g end_node current_node st d =
     (let neighbor_node = (fst current_node + fst d, snd current_node + snd d) in
      if \<not> in_bounds neighbor_node then Inr st
      else if cell g neighbor_node = 1 then Inr st
      else (case g_score st current_node of
              None \<Rightarrow> Inl KeyError
            | Some g_current \<Rightarrow>
                (let tentative_g = g_current + move_cost d in
                 if (case g_score st neighbor_node of None \<Rightarrow> True | Some g_old \<Rightarrow> tentative_g < g_old)
                 then (let h_score = heuristic neighbor_node end_node;
                           f_score = tentative_g + h_score
                       in Inr (st\<lparr>came_from := (came_from st)(neighbor_node \<mapsto> Some current_node),
                                  g_score := (g_score st)(neighbor_node \<mapsto> tentative_g),
                                  open_list := open_list st @ [(f_score, h_score, neighbor_node)]\<rparr>))
                 else Inr st)))"

fun astar_neighbors :: "grid \<Rightarrow> node \<Rightarrow> node \<Rightarrow> astar \<Rightarrow> (int \<times> int) list \<Rightarrow> path_error + astar" where
  "astar_neighbors g end_node current_node st [] = Inr st"
| "astar_neighbors g end_node current_node st (d # ds) =
     (case astar_relax g end_node current_node st d of
        Inl e \<Rightarrow> Inl e
      | Inr st' \<Rightarrow> astar_neighbors g end_node current_node st' ds)"

partial_function (option) reconstruct_loop ::
    "(node \<rightharpoonup> node option) \<Rightarrow> node option \<Rightarrow> point list \<Rightarrow> point list option" where
  "reconstruct_loop cf temp_grid path_world =
     (case temp_grid of
        None \<Rightarrow> Some path_world
      | Some n \<Rightarrow> reconstruct_loop cf (case cf n of None \<Rightarrow> None | Some parent \<Rightarrow> parent)
                    (path_world @ [grid_to_world n]))"

definition reconstruct_path :: "(node \<rightharpoonup> node option) \<Rightarrow> node \<Rightarrow> point list option" where
  "reconstruct_path cf current_node = map_option rev (reconstruct_loop cf (Some current_node) [])"

definition open_nodes :: "astar \<Rightarrow> node set" where
  "open_nodes st = (\<lambda>e. snd (snd e)) ` set (open_list st)"

definition astar_measure :: "astar \<Rightarrow> nat" where
  "astar_measure st =
     9 * card (({n. in_bounds n} \<union> open_nodes st) - closed_set st) + length (open_list st)"

lemma astar_relax_shape:
  assumes "astar_relax g e c st d = Inr st'"
  shows "closed_set st' = closed_set st"
    and "open_nodes st' \<subseteq> open_nodes st \<union> {n. in_bounds n}"
    and "length (open_list st') \<le> Suc (length (open_list st))"
  using assms
  by (auto simp: astar_relax_def Let_def open_nodes_def split: if_splits option.splits)

lemma astar_neighbors_shape:
  assumes "astar_neighbors g e c st ds = Inr st'"
  shows "closed_set st' = closed_set st \<and>
         open_nodes st' \<subseteq> open_nodes st \<union> {n. in_bounds n} \<and>
         length (open_list st') \<le> length ds + length (open_list st)"
  using assms
proof (induction ds arbitrary: st)
  case Nil
  then show ?case by simp
next
  case (Cons d ds)
  from Cons.prems obtain st1 where r: "astar_relax g e c st d = Inr st1"
    and n: "astar_neighbors g e c st1 ds = Inr st'"
    by (auto split: sum.splits)
  from Cons.IH [OF n] astar_relax_shape [OF r] show ?case by auto
qed

lemma astar_measure_skip:
  assumes "heappop (open_list st) = Some (tp, rest)"
  shows "astar_measure (st\<lparr>open_list := rest\<rparr>) < astar_measure st"
proof -
  have r: "rest = remove1 tp (open_list st)" and len: "Suc (length rest) = length (open_list st)"
    using heappop_Some [OF assms] by auto
  have sub: "open_nodes (st\<lparr>open_list := rest\<rparr>) \<subseteq> open_nodes st"
    using r set_remove1_subset [of tp "open_list st"] by (auto simp: open_nodes_def)
  have fin: "finite (({n. in_bounds n} \<union> open_nodes st) - closed_set st)"
    using finite_in_bounds by (simp add: open_nodes_def)
  have "card (({n. in_bounds n} \<union> open_nodes (st\<lparr>open_list := rest\<rparr>)) - closed_set st)
          \<le> card (({n. in_bounds n} \<union> open_nodes st) - closed_set st)"
    using sub by (intro card_mono fin) auto
  then show ?thesis using len by (simp add: astar_measure_def)
qed

lemma astar_measure_expand:
  assumes pop: "heappop (open_list st) = Some ((f, h, c), rest)"
    and nc: "c \<notin> closed_set st"
    and nb: "astar_neighbors g e c (st\<lparr>open_list := rest, closed_set := insert c (closed_set st)\<rparr>) ds = Inr st'"
    and ds: "length ds \<le> 8"
  shows "astar_measure st' < astar_measure st"
proof -
  let ?B = "{n. in_bounds n}"
  have r: "rest = remove1 (f, h, c) (open_list st)" and len: "Suc (length rest) = length (open_list st)"
    and mem: "(f, h, c) \<in> set (open_list st)"
    using heappop_Some [OF pop] by auto
  have c_open: "c \<in> open_nodes st" using mem by (force simp: open_nodes_def)
  have sub0: "open_nodes (st\<lparr>open_list := rest, closed_set := insert c (closed_set st)\<rparr>) \<subseteq> open_nodes st"
    using r set_remove1_subset [of "(f, h, c)" "open_list st"] by (auto simp: open_nodes_def)
  from astar_neighbors_shape [OF nb]
  have cl: "closed_set st' = insert c (closed_set st)"
    and on: "open_nodes st' \<subseteq> open_nodes st \<union> ?B"
    and ln: "length (open_list st') \<le> length ds + length rest"
    using sub0 by auto
  have fin: "finite ((?B \<union> open_nodes st) - closed_set st)"
    using finite_in_bounds by (simp add: open_nodes_def)
  have "(?B \<union> open_nodes st') - closed_set st' \<subseteq> ((?B \<union> open_nodes st) - closed_set st) - {c}"
    using cl on by auto
  moreover have "c \<in> (?B \<union> open_nodes st) - closed_set st" using c_open nc by simp
  ultimately have "(?B \<union> open_nodes st') - closed_set st' \<subset> (?B \<union> open_nodes st) - closed_set st"
    by blast
  then have "card ((?B \<union> open_nodes st') - closed_set st') < card ((?B \<union> open_nodes st) - closed_set st)"
    by (rule psubset_card_mono [OF fin])
  then show ?thesis using ln len ds by (simp add: astar_measure_def)
qed

lemma length_directions: "length directions \<le> 8"
  by (simp add: directions_def)

function astar_loop :: "grid \<Rightarrow> node \<Rightarrow> astar \<Rightarrow> (path_error + point list) option" where
  "astar_loop g end_node st =
     (case heappop (open_list st) of
        None \<Rightarrow> Some (Inr [])
      | Some ((current_f, current_h, current_node), rest) \<Rightarrow>
          if current_node = end_node
          then map_option Inr (reconstruct_path (came_from st) current_node)
          else if current_node \<in> closed_set st
          then astar_loop g end_node (st\<lparr>open_list := rest\<rparr>)
          else (case astar_neighbors g end_node current_node
                       (st\<lparr>open_list := rest, closed_set := insert current_node (closed_set st)\<rparr>)
                       directions of
                  Inl e \<Rightarrow> Some (Inl e)
                | Inr st' \<Rightarrow> astar_loop g end_node st'))"
  by pat_completeness auto
termination
proof (relation "measure (\<lambda>(g, end_node, st). astar_measure st)", goal_cases)
  case 1
  show ?case by simp
next
  case 2
  then show ?case by (auto intro: astar_measure_skip)
next
  case 3
  then show ?case by (auto intro: astar_measure_expand [OF _ _ _ length_directions])
qed

declare astar_loop.simps [simp del]

definition clamp_node :: "node \<Rightarrow> node" where
  "clamp_node n = (max 0 (min (fst n) (grid_width - 1)), max 0 (min (snd n) (grid_height - 1)))"

definition astar_init :: "node \<Rightarrow> node \<Rightarrow> astar" where
  "astar_init start_node end_node =
     (let start_h = heuristic start_node end_node;
          start_f = 0 + start_h
      in \<lparr>open_list = [(start_f, start_h, start_node)], closed_set = {},
          came_from = [start_node \<mapsto> None], g_score = [start_node \<mapsto> 0]\<rparr>)"

definition find_path :: "grid \<Rightarrow> point \<Rightarrow> point \<Rightarrow> (path_error + point list) option" where
  "find_path g start_pos end_pos =
     (let start_node = clamp_node (world_to_grid start_pos);
          end_node = clamp_node (world_to_grid end_pos);
          start_is_obstacle = (cell g start_node = 1);
          end_is_obstacle = (cell g end_node = 1)
      in (case (if start_is_obstacle then find_nearest_free_cell g start_node end_node
                else Some start_node) of
            None \<Rightarrow> Some (Inr [])
          | Some start_node' \<Rightarrow>
              (case (if end_is_obstacle then find_nearest_free_cell g end_node start_node'
                     else Some end_node) of
                 None \<Rightarrow> Some (Inr [])
               | Some end_node' \<Rightarrow>
                   if start_node' = end_node' then Some (Inr [grid_to_world end_node'])
                   else astar_loop g end_node' (astar_init start_node' end_node'))))"

section \<open>Auxiliary definitions for the statements\<close>

text \<open>
  The well-formedness of an FSM that \<open>__init__\<close>, \<open>set_patrol_points\<close> and \<open>update\<close> keep: the
  state is \<open>PATROL\<close> only with patrol points, and the patrol index is inside the list.
\<close>

definition fsm_ok :: "fsm \<Rightarrow> bool" where
  "fsm_ok f = ((current_state f = PATROL \<longrightarrow> patrol_points f \<noteq> []) \<and>
               (patrol_points f \<noteq> [] \<longrightarrow> current_patrol_index f < length (patrol_points f)))"

text \<open>The search branch of \<open>handle_hide\<close>, which it reaches with no hide target.\<close>

definition hide_search :: "fsm \<Rightarrow> car \<Rightarrow> car \<Rightarrow> obstacle list \<Rightarrow> fsm \<times> point" where
  "hide_search f d p obs =
     (case find_best_hiding_spot d p obs of
        Some best_spot \<Rightarrow> (f\<lparr>current_hide_target := Some best_spot\<rparr>, best_spot)
      | None \<Rightarrow> (f, handle_evade d p))"

text \<open>The FSM after the transition step of \<open>update\<close>, before the handler runs.\<close>

definition after_transition :: "fsm \<Rightarrow> real \<Rightarrow> bool \<Rightarrow> int \<Rightarrow> fsm" where
  "after_transition f dtp safe now =
     (if next_state_of f dtp safe now \<noteq> current_state f
      then change_state f (next_state_of f dtp safe now) now else f)"

text \<open>The clock value and the state recorded after each tick of a run.\<close>

definition state_trace :: "tick list \<Rightarrow> fsm list \<Rightarrow> (int \<times> DefenseState) list" where
  "state_trace ticks fs = zip (map tick_now ticks) (map current_state fs)"

text \<open>
  The Evade target as the specification words it: the margin of the clamp is half the width
  of the agent. The source uses the whole width, see \<open>handle_evade\<close>.
\<close>

definition evade_point_half_width :: "car \<Rightarrow> car \<Rightarrow> point" where
  "evade_point_half_width defense_car player_car =
     (let player_pos = get_position player_car;
          defense_pos = get_position defense_car;
          nd = normalize_vector (fst defense_pos - fst player_pos) (snd defense_pos - snd player_pos);
          margin = real_of_int (car_width defense_car) / 2
      in (max margin (min (fst defense_pos + fst nd * (SAFE_DISTANCE * 1.1))
                          (real_of_int SCREEN_WIDTH - margin)),
          max margin (min (snd defense_pos + snd nd * (SAFE_DISTANCE * 1.1))
                          (real_of_int SCREEN_HEIGHT - margin))))"

text \<open>Concrete cars, obstacles and ticks for the examples.\<close>

definition defender0 :: car where
  "defender0 = \<lparr>car_x = 85, car_y = 80, car_width = 30, car_height = 40, car_max_speed = 4\<rparr>"
definition player_near :: car where
  "player_near = \<lparr>car_x = 385, car_y = 80, car_width = 30, car_height = 40, car_max_speed = 5\<rparr>"
definition player_far :: car where
  "player_far = \<lparr>car_x = 935, car_y = 80, car_width = 30, car_height = 40, car_max_speed = 5\<rparr>"
definition player_touching :: car where
  "player_touching = \<lparr>car_x = 125, car_y = 80, car_width = 30, car_height = 40, car_max_speed = 5\<rparr>"
definition wall0 :: "obstacle list" where
  "wall0 = [\<lparr>obs_x = 800, obs_y = 80, obs_size = 40\<rparr>]"
definition osc_ticks :: "tick list" where
  "osc_ticks =
     [\<lparr>tick_now = 600, tick_defender = defender0, tick_player = player_near, tick_obstacles = wall0\<rparr>,
      \<lparr>tick_now = 700, tick_defender = defender0, tick_player = player_far, tick_obstacles = wall0\<rparr>,
      \<lparr>tick_now = 800, tick_defender = defender0, tick_player = player_near, tick_obstacles = wall0\<rparr>,
      \<lparr>tick_now = 1100, tick_defender = defender0, tick_player = player_far, tick_obstacles = wall0\<rparr>]"


text \<open>
  The invariant of the A* loop for the start node \<open>s\<close>: the start has no parent and cost 0,
  a parent is at least one unit cheaper than its child, only the start has no parent, costs
  are not negative and every node with a cost has an entry in \<open>came_from\<close>, and every node
  of the open list has a cost.
\<close>

definition astar_inv :: "node \<Rightarrow> astar \<Rightarrow> bool" where
  "astar_inv s st =
     (came_from st s = Some None \<and> g_score st s = Some 0 \<and>
      (\<forall>n p. came_from st n = Some (Some p) \<longrightarrow>
         (\<exists>gn gp. g_score st n = Some gn \<and> g_score st p = Some gp \<and> gp + 1 \<le> gn)) \<and>
      (\<forall>n. came_from st n = Some None \<longrightarrow> n = s) \<and>
      (\<forall>n v. g_score st n = Some v \<longrightarrow> 0 \<le> v \<and> came_from st n \<noteq> None) \<and>
      (\<forall>e \<in> set (open_list st). g_score st (snd (snd e)) \<noteq> None))"

definition queue_in_bounds :: "entry list \<Rightarrow> bool" where
  "queue_in_bounds q = (\<forall>x \<in> set q. in_bounds (snd (snd x)))"

text \<open>A grid for the examples: every cell free but (0, 0).\<close>

definition grid1 :: grid where
  "grid1 = (replicate 50 (replicate 40 0))[0 := (replicate 40 0)[0 := 1]]"

text \<open>
  A free route: \<open>reaches g s n\<close> holds when \<open>n\<close> is the node \<open>s\<close> or can be reached from it by
  the eight moves of \<open>directions\<close>, each into a node inside the grid whose cell is not 1.
  These are the moves that the neighbour loop of \<open>find_path\<close> follows.
\<close>

inductive reaches :: "grid \<Rightarrow> node \<Rightarrow> node \<Rightarrow> bool" for g :: grid and s :: node where
  reaches_start: "reaches g s s"
| reaches_step: "reaches g s n \<Longrightarrow> d \<in> set directions \<Longrightarrow>
                 m = (fst n + fst d, snd n + snd d) \<Longrightarrow> in_bounds m \<Longrightarrow> cell g m \<noteq> 1 \<Longrightarrow>
                 reaches g s m"

code_pred reaches .

text \<open>
  The second invariant of the A* loop: every node with a cost can be reached from the start
  and is closed or on the open list, and every passable neighbour of a node of \<open>cs\<close> has a
  cost. In the main loop \<open>cs\<close> is the closed set.
\<close>

definition astar_cover :: "grid \<Rightarrow> node \<Rightarrow> node set \<Rightarrow> astar \<Rightarrow> bool" where
  "astar_cover g s cs st =
     ((\<forall>n. g_score st n \<noteq> None \<longrightarrow>
           reaches g s n \<and> (n \<in> closed_set st \<or> n \<in> open_nodes st)) \<and>
      (\<forall>c \<in> cs. \<forall>d \<in> set directions.
           in_bounds (fst c + fst d, snd c + snd d) \<and> cell g (fst c + fst d, snd c + snd d) \<noteq> 1 \<longrightarrow>
           g_score st (fst c + fst d, snd c + snd d) \<noteq> None))"

text \<open>A grid for the examples: every cell blocked but (1, 0) and (3, 0).\<close>

definition grid2 :: grid where
  "grid2 = (replicate 50 (replicate 40 1))[1 := (replicate 40 1)[0 := 0],
                                           3 := (replicate 40 1)[0 := 0]]"

section \<open>Facts about the geometry helpers\<close>

lemma distance_nonneg: "0 \<le> distance x1 y1 x2 y2"
  by (simp add: distance_def)

lemma distance_commute: "distance x1 y1 x2 y2 = distance x2 y2 x1 y1"
  by (simp add: distance_def power2_commute)

lemma distance_origin: "distance 0 0 vx vy = sqrt (vx\<^sup>2 + vy\<^sup>2)"
  by (simp add: distance_def)

lemma distance_diff: "distance 0 0 (x2 - x1) (y2 - y1) = distance x1 y1 x2 y2"
  by (simp add: distance_def)

lemma distance_eqI: "0 \<le> r \<Longrightarrow> (x2 - x1)\<^sup>2 + (y2 - y1)\<^sup>2 = r\<^sup>2 \<Longrightarrow> distance x1 y1 x2 y2 = r"
  by (simp add: distance_def)

lemma normalize_vector_checked_eq:
  "normalize_vector_checked vx vy = Inr (normalize_vector vx vy)"
  by (auto simp: normalize_vector_checked_def normalize_vector_def py_truediv_def Let_def)


lemma py_int_of_int [simp]: "py_int (real_of_int i) = i"
  by (simp add: py_int_def)

lemma py_int_numeral [simp]: "py_int (numeral n) = numeral n"
  by (simp add: py_int_def)

section \<open>Line of sight\<close>

lemma los_short_segment:
  "distance (fst a) (snd a) (fst b) (snd b) \<le> 5 \<Longrightarrow> \<not> check_line_of_sight a b obstacles"
  by (simp add: check_line_of_sight_def Let_def los_march.simps step_size_def)

text \<open>
  Claim C10. Two points at most 5.0 apart (one step of the ray march) are always reported
  as in line of sight, for every obstacle list: the first sample is taken one full step from
  the start and the loop stops strictly before the end of the segment. The witness has both
  points inside one obstacle.
\<close>

theorem los_clear_within_step:
  "distance (fst a) (snd a) (fst b) (snd b) \<le> 5 \<Longrightarrow> \<not> check_line_of_sight a b obstacles"
  by (rule los_short_segment)

theorem los_clear_within_step_witness:
  "distance (fst (100, 100)) (snd (100, 100)) (fst (103, 104)) (snd (103, 104)) \<le> 5 \<and>
   collidepoint (obs_rect \<lparr>obs_x = 80, obs_y = 80, obs_size = 40\<rparr>) 100 100 \<and>
   collidepoint (obs_rect \<lparr>obs_x = 80, obs_y = 80, obs_size = 40\<rparr>) 103 104 \<and>
   \<not> check_line_of_sight (100, 100) (103, 104) [\<lparr>obs_x = 80, obs_y = 80, obs_size = 40\<rparr>]"
proof -
  have d: "distance (fst (100, 100)) (snd (100, 100)) (fst (103, 104)) (snd (103, 104)) \<le> 5"
    by (simp add: distance_eqI [where r = 5])
  show ?thesis
    using d los_clear_within_step [OF d, of "[\<lparr>obs_x = 80, obs_y = 80, obs_size = 40\<rparr>]"]
    by (simp add: collidepoint_def obs_rect_def)
qed

text \<open>
  Claim C4, as stated: the line-of-sight check gives the same answer in both directions.
  It does not. From (100, 100) to (104.5, 106), a segment of length 7.5, the only sample is
  (103, 104), inside the obstacle with corner (102, 65) and size 40; from (104.5, 106) to
  (100, 100) the only sample is (101.5, 102), outside it. Both end points are outside the
  obstacle.
\<close>

theorem los_symmetry_counterexample:
  "check_line_of_sight (100, 100) (209 / 2, 106) [\<lparr>obs_x = 102, obs_y = 65, obs_size = 40\<rparr>] \<and>
   \<not> check_line_of_sight (209 / 2, 106) (100, 100) [\<lparr>obs_x = 102, obs_y = 65, obs_size = 40\<rparr>]"
proof -
  have d1: "distance 100 100 (209 / 2) 106 = 15 / 2"
    by (rule distance_eqI) (simp_all add: power2_eq_square)
  have d2: "distance (209 / 2) 106 100 100 = 15 / 2"
    by (rule distance_eqI) (simp_all add: power2_eq_square)
  have d3: "distance 0 0 (9 / 2) 6 = 15 / 2"
    by (rule distance_eqI) (simp_all add: power2_eq_square)
  have d4: "distance 0 0 (- (9 / 2)) (- 6) = 15 / 2"
    by (rule distance_eqI) (simp_all add: power2_eq_square)
  show ?thesis
    by (simp add: check_line_of_sight_def Let_def d1 d2 d3 d4 normalize_vector_def
         los_march.simps step_size_def collidepoint_def obs_rect_def py_int_def)
qed

text \<open>
  Claim C4, amended: the check is symmetric when the two points are at most one step (5.0)
  apart, for every obstacle list: in both directions no sample is taken and the answer is
  \<open>False\<close>. For longer segments the two marches sample different points. The witness has
  both end points inside one obstacle.
\<close>

theorem los_symmetric_within_step:
  assumes "distance ax ay bx by \<le> 5"
  shows "check_line_of_sight (ax, ay) (bx, by) obs = check_line_of_sight (bx, by) (ax, ay) obs"
proof -
  from assms have "distance bx by ax ay \<le> 5" by (simp add: distance_commute)
  with assms show ?thesis
    using los_short_segment [of "(ax, ay)" "(bx, by)" obs]
      los_short_segment [of "(bx, by)" "(ax, ay)" obs]
    by simp
qed

theorem los_symmetric_within_step_witness:
  "distance 100 100 103 104 \<le> 5 \<and>
   collidepoint (obs_rect \<lparr>obs_x = 80, obs_y = 80, obs_size = 40\<rparr>) 100 100 \<and>
   collidepoint (obs_rect \<lparr>obs_x = 80, obs_y = 80, obs_size = 40\<rparr>) 103 104 \<and>
   check_line_of_sight (100, 100) (103, 104) [\<lparr>obs_x = 80, obs_y = 80, obs_size = 40\<rparr>]
     = check_line_of_sight (103, 104) (100, 100) [\<lparr>obs_x = 80, obs_y = 80, obs_size = 40\<rparr>]"
proof -
  have d: "distance 100 100 103 104 \<le> 5"
    by (simp add: distance_eqI [where r = 5])
  show ?thesis
    using d los_symmetric_within_step [OF d, of "[\<lparr>obs_x = 80, obs_y = 80, obs_size = 40\<rparr>]"]
    by (simp add: collidepoint_def obs_rect_def)
qed

lemma distance_same_y [simp]: "distance x1 y x2 y = \<bar>x2 - x1\<bar>"
  by (simp add: distance_def)

lemma distance_same_x [simp]: "distance x y1 x y2 = \<bar>y2 - y1\<bar>"
  by (simp add: distance_def)

section \<open>Vector normalisation\<close>

lemma normalize_vector_checked_unit:
  assumes "\<not> distance 0 0 vx vy < 0.0001"
  shows "\<exists>ux uy. normalize_vector_checked vx vy = Inr (ux, uy) \<and> ux\<^sup>2 + uy\<^sup>2 = 1 \<and>
           ux * distance 0 0 vx vy = vx \<and> uy * distance 0 0 vx vy = vy"
proof -
  let ?m = "distance 0 0 vx vy"
  have pos: "0 < ?m" using assms by simp
  have sq: "?m\<^sup>2 = vx\<^sup>2 + vy\<^sup>2" by (simp add: distance_def)
  have "(vx / ?m)\<^sup>2 + (vy / ?m)\<^sup>2 = (vx\<^sup>2 + vy\<^sup>2) / ?m\<^sup>2"
    by (simp add: power_divide add_divide_distrib)
  also have "\<dots> = 1" using pos unfolding sq [symmetric] by simp
  finally have u: "(vx / ?m)\<^sup>2 + (vy / ?m)\<^sup>2 = 1" .
  have "normalize_vector_checked vx vy = Inr (vx / ?m, vy / ?m)"
    using assms pos by (simp add: normalize_vector_checked_def py_truediv_def Let_def)
  with u pos show ?thesis by simp
qed

lemma normalize_vector_hide_checked_eq:
  "normalize_vector_hide_checked vx vy =
     Inr (vx / max 0.01 (distance 0 0 vx vy), vy / max 0.01 (distance 0 0 vx vy))"
  by (simp add: normalize_vector_hide_checked_def py_truediv_def Let_def max_def)

text \<open>
  Claim C9, as stated for both cited functions: the zero vector below a small epsilon,
  otherwise a unit vector. The function of Hide/utils.py divides by \<open>max(0.01, mag)\<close>: the
  vector (0.001, 0), of magnitude 0.001, becomes (0.1, 0), which is neither the zero vector
  nor a unit vector.
\<close>

theorem normalize_vector_hide_counterexample:
  "distance 0 0 (1 / 1000) 0 = 1 / 1000 \<and>
   normalize_vector_hide_checked (1 / 1000) 0 = Inr (1 / 10, 0)"
  by (simp add: normalize_vector_hide_checked_eq)

text \<open>
  Claim C9, amended, for arguments read as exact reals: finite components whose squares do
  not overflow. \<open>normalize_vector\<close> of Your Choice/utils.py returns (0, 0) when the magnitude
  is below 0.0001 and otherwise a unit vector in the direction of the input. The function of
  Hide/utils.py returns the input divided by \<open>max(0.01, mag)\<close>, a unit vector when the
  magnitude is at least 0.01. Neither raises a division by zero. Infinite and NaN components
  and the \<open>OverflowError\<close> of \<open>**\<close> have no counterpart in \<^typ>\<open>real\<close>: the statement says
  nothing about them.
\<close>

theorem normalize_vector_policy:
  "(distance 0 0 vx vy < 0.0001 \<longrightarrow> normalize_vector_checked vx vy = Inr (0, 0)) \<and>
   (\<not> distance 0 0 vx vy < 0.0001 \<longrightarrow>
      (\<exists>ux uy. normalize_vector_checked vx vy = Inr (ux, uy) \<and> ux\<^sup>2 + uy\<^sup>2 = 1 \<and>
         ux * distance 0 0 vx vy = vx \<and> uy * distance 0 0 vx vy = vy)) \<and>
   normalize_vector_hide_checked vx vy =
     Inr (vx / max 0.01 (distance 0 0 vx vy), vy / max 0.01 (distance 0 0 vx vy)) \<and>
   (0.01 \<le> distance 0 0 vx vy \<longrightarrow>
      (vx / max 0.01 (distance 0 0 vx vy))\<^sup>2 + (vy / max 0.01 (distance 0 0 vx vy))\<^sup>2 = 1)"
proof -
  have unit: "(vx / max 0.01 (distance 0 0 vx vy))\<^sup>2 + (vy / max 0.01 (distance 0 0 vx vy))\<^sup>2 = 1"
    if big: "0.01 \<le> distance 0 0 vx vy"
  proof -
    let ?m = "distance 0 0 vx vy"
    have m: "max 0.01 ?m = ?m" using big by simp
    have pos: "0 < ?m" using big by simp
    have sq: "?m\<^sup>2 = vx\<^sup>2 + vy\<^sup>2" by (simp add: distance_def)
    have "(vx / ?m)\<^sup>2 + (vy / ?m)\<^sup>2 = (vx\<^sup>2 + vy\<^sup>2) / ?m\<^sup>2"
      by (simp add: power_divide add_divide_distrib)
    also have "\<dots> = 1" using pos unfolding sq [symmetric] by simp
    finally show ?thesis unfolding m .
  qed
  show ?thesis
    using normalize_vector_checked_unit [of vx vy] unit
    by (simp add: normalize_vector_hide_checked_eq normalize_vector_checked_def)
qed

theorem normalize_vector_policy_witness:
  "distance 0 0 0 0 < 0.0001 \<and> normalize_vector_checked 0 0 = Inr (0, 0) \<and>
   \<not> distance 0 0 3 4 < 0.0001 \<and> normalize_vector_checked 3 4 = Inr (3 / 5, 4 / 5) \<and>
   0.01 \<le> distance 0 0 3 4 \<and> normalize_vector_hide_checked 3 4 = Inr (3 / 5, 4 / 5)"
proof -
  have d: "distance 0 0 3 4 = 5" by (rule distance_eqI) simp_all
  show ?thesis
    using normalize_vector_policy [of 0 0] normalize_vector_policy [of 3 4]
    by (simp add: d normalize_vector_checked_def py_truediv_def)
qed

section \<open>Position prediction\<close>

text \<open>
  Claim C8, as stated: for position (0, 0), velocity (10, 0), 60 frames per second, 60 steps
  and interval 5 the last of the 12 points is (100, 0). It is (10, 0): the last point is one
  second ahead, at 10 units per second.
\<close>

theorem predict_future_path_example_counterexample:
  "length (predict_future_path FPS (0, 0) (10, 0) 60 5) = 12 \<and>
   last (predict_future_path FPS (0, 0) (10, 0) 60 5) = (10, 0) \<and>
   last (predict_future_path FPS (0, 0) (10, 0) 60 5) \<noteq> (100, 0)"
  by (simp add: predict_future_path_def Let_def predict_linear_def FPS_def upto.simps)

text \<open>
  Claim C8, amended. \<open>predict_future_path\<close> returns the empty list when the tick rate is not
  positive, and also when the interval is not positive. Otherwise it returns
  \<open>steps // interval\<close> points (none when that is negative), the i-th (from 1) being
  \<open>position + velocity * (i * interval / FPS)\<close>. For position (0, 0), velocity (10, 0), 60
  frames per second, 60 steps and interval 5 it returns 12 points, the last equal to (10, 0).
\<close>

theorem predict_future_path_points:
  "(fps \<le> 0 \<or> interval \<le> 0 \<longrightarrow> predict_future_path fps position velocity steps interval = []) \<and>
   (0 < fps \<and> 0 < interval \<longrightarrow>
      length (predict_future_path fps position velocity steps interval) = nat (steps div interval) \<and>
      (\<forall>i < nat (steps div interval).
         predict_future_path fps position velocity steps interval ! i =
           (fst position + fst velocity * (real (i + 1) * real_of_int interval / real_of_int fps),
            snd position + snd velocity * (real (i + 1) * real_of_int interval / real_of_int fps)))) \<and>
   length (predict_future_path FPS (0, 0) (10, 0) 60 5) = 12 \<and>
   last (predict_future_path FPS (0, 0) (10, 0) 60 5) = (10, 0)"
proof -
  have ex: "length (predict_future_path FPS (0, 0) (10, 0) 60 5) = 12 \<and>
            last (predict_future_path FPS (0, 0) (10, 0) 60 5) = (10, 0)"
    by (simp add: predict_future_path_def Let_def predict_linear_def FPS_def upto.simps)
  have e: "fps \<le> 0 \<or> interval \<le> 0 \<longrightarrow> predict_future_path fps position velocity steps interval = []"
    by (auto simp: predict_future_path_def)
  have p: "0 < fps \<and> 0 < interval \<longrightarrow>
      length (predict_future_path fps position velocity steps interval) = nat (steps div interval) \<and>
      (\<forall>i < nat (steps div interval).
         predict_future_path fps position velocity steps interval ! i =
           (fst position + fst velocity * (real (i + 1) * real_of_int interval / real_of_int fps),
            snd position + snd velocity * (real (i + 1) * real_of_int interval / real_of_int fps)))"
    by (simp add: predict_future_path_def Let_def predict_linear_def add.commute)
  show ?thesis using ex e p by blast
qed

theorem predict_future_path_points_witness:
  "predict_future_path 0 (0, 0) (10, 0) 60 5 = [] \<and>
   predict_future_path 60 (0, 0) (10, 0) 60 0 = [] \<and>
   length (predict_future_path 60 (1, 2) (10, 20) 17 5) = 3 \<and>
   predict_future_path 60 (1, 2) (10, 20) 17 5 ! 2 = (1 + 10 * (3 * 5 / 60), 2 + 20 * (3 * 5 / 60))"
  using predict_future_path_points [of 0 5 "(0, 0)" "(10, 0)" 60]
    predict_future_path_points [of 60 0 "(0, 0)" "(10, 0)" 60]
    predict_future_path_points [of 60 5 "(1, 2)" "(10, 20)" 17]
  by simp

section \<open>The Evade handler\<close>

text \<open>
  Claim C7, as stated: the Evade target is clamped with a margin of half the width of the
  agent. The source clamps with the whole width: a defender centred at (20, 400), 30 wide,
  with the threat at (500, 400), gets the target (30, 400), where a margin of half the
  width gives (15, 400).
\<close>

theorem handle_evade_margin_counterexample:
  "handle_evade \<lparr>car_x = 5, car_y = 380, car_width = 30, car_height = 40, car_max_speed = 4\<rparr>
                \<lparr>car_x = 485, car_y = 380, car_width = 30, car_height = 40, car_max_speed = 5\<rparr>
     = (30, 400) \<and>
   evade_point_half_width
                \<lparr>car_x = 5, car_y = 380, car_width = 30, car_height = 40, car_max_speed = 4\<rparr>
                \<lparr>car_x = 485, car_y = 380, car_width = 30, car_height = 40, car_max_speed = 5\<rparr>
     = (15, 400)"
  by (simp add: handle_evade_def evade_point_half_width_def get_position_def Let_def
        normalize_vector_def SAFE_DISTANCE_def SCREEN_WIDTH_def SCREEN_HEIGHT_def)

text \<open>
  Claim C7, amended. The Evade handler returns the point 110 units (the safe distance times
  1.1) from the defender along the normalised threat-to-defender direction, each
  coordinate clamped to the playable area with a margin equal to the width of the agent;
  for an agent at most 400 wide the result lies inside that margin.
\<close>

theorem handle_evade_target:
  "handle_evade d p =
     (let nd = normalize_vector (fst (get_position d) - fst (get_position p))
                                (snd (get_position d) - snd (get_position p));
          margin = real_of_int (car_width d)
      in (max margin (min (fst (get_position d) + fst nd * 110) (1000 - margin)),
          max margin (min (snd (get_position d) + snd nd * 110) (800 - margin)))) \<and>
   (car_width d \<le> 400 \<longrightarrow>
      real_of_int (car_width d) \<le> fst (handle_evade d p) \<and>
      fst (handle_evade d p) \<le> 1000 - real_of_int (car_width d) \<and>
      real_of_int (car_width d) \<le> snd (handle_evade d p) \<and>
      snd (handle_evade d p) \<le> 800 - real_of_int (car_width d))"
  by (simp add: handle_evade_def Let_def SAFE_DISTANCE_def SCREEN_WIDTH_def SCREEN_HEIGHT_def
        mult.commute)

theorem handle_evade_target_witness:
  "car_width defender0 \<le> 400 \<and>
   handle_evade defender0 player_near = (30, 100) \<and>
   real_of_int (car_width defender0) \<le> fst (handle_evade defender0 player_near) \<and>
   fst (handle_evade defender0 player_near) \<le> 1000 - real_of_int (car_width defender0)"
  using handle_evade_target [of defender0 player_near]
  by (simp add: defender0_def player_near_def get_position_def normalize_vector_def Let_def)

section \<open>The steering blend\<close>

lemma distance_100_100_130_60: "distance 100 100 130 60 = 50"
  by (rule distance_eqI) simp_all

lemma distance_0_0_m30_40: "distance 0 0 (- 30) 40 = 50"
  by (rule distance_eqI) simp_all

lemma distance_avoidance_example: "distance 0 0 (- (1 / 5)) (4 / 15) = 1 / 3"
  by (rule distance_eqI) (simp_all add: power2_eq_square)

lemma steering_inputs_example:
  "steering_inputs \<lparr>car_x = 85, car_y = 80, car_width = 30, car_height = 40, car_max_speed = 4\<rparr>
      EVADE None (200, 100) [\<lparr>obs_x = 110, obs_y = 40, obs_size = 40\<rparr>]
    = ((1, 0), (- (1 / 5), 4 / 15, True))"
  by (simp add: steering_inputs_def get_position_def Let_def normalize_vector_def obs_center_def
        rect_centerx_def rect_centery_def obs_rect_def distance_100_100_130_60 distance_0_0_m30_40)

text \<open>
  Claim C6, as stated: the boundary of the blend weight is a dot product of -0.5. In
  \<open>DefenderAI.calculate_movement_velocity\<close> it is not. A car centred at (100, 100) that
  heads for (200, 100) past an obstacle centred at (130, 60) has the desired direction
  (1, 0) and the avoidance direction (-0.6, 0.8); their dot product is -0.6, below -0.5, and
  the avoidance weight is 0.4, the middle weight, not the low weight 0.2.
\<close>

theorem avoid_weight_boundary_counterexample:
  "steering_inputs \<lparr>car_x = 85, car_y = 80, car_width = 30, car_height = 40, car_max_speed = 4\<rparr>
      EVADE None (200, 100) [\<lparr>obs_x = 110, obs_y = 40, obs_size = 40\<rparr>]
     = ((1, 0), (- (1 / 5), 4 / 15, True)) \<and>
   opposition_dot_of (1, 0) (- (1 / 5), 4 / 15, True) = - (3 / 5) \<and>
   avoid_weight (opposition_dot_of (1, 0) (- (1 / 5), 4 / 15, True)) = 2 / 5 \<and>
   blend_direction (1, 0) (- (1 / 5), 4 / 15, True)
     = normalize_vector (1 * (1 - 2 / 5) + - (3 / 5) * (2 / 5)) (0 * (1 - 2 / 5) + 4 / 5 * (2 / 5))"
  by (simp add: steering_inputs_example opposition_dot_of_def blend_direction_def avoid_weight_def
        distance_avoidance_example Let_def)

lemma distance_226_100_130_60: "distance 226 100 130 60 = 104"
  by (rule distance_eqI) simp_all

lemma move_to_target_inputs_example:
  "move_to_target_inputs distance normalize_vector
      \<lparr>car_x = 85, car_y = 80, car_width = 30, car_height = 40, car_max_speed = 4\<rparr>
      (226, 100) [\<lparr>obs_x = 110, obs_y = 40, obs_size = 40\<rparr>]
    = ((1, 0), 4, Inr (- (1 / 5), 4 / 15, True))"
  by (simp add: move_to_target_inputs_def Let_def normalize_vector_def py_truediv_def
        BUFFER_BEHIND_OBSTACLE_def CAR_HEIGHT_def
        distance_226_100_130_60 distance_100_100_130_60 distance_0_0_m30_40)

lemma sqrt_avoidance_example: "sqrt ((1 / 5)\<^sup>2 + (4 / 15)\<^sup>2) = 1 / 3"
  by (rule real_sqrt_unique) (simp_all add: power2_eq_square)

text \<open>
  Claim C6, amended. In \<open>DefenderAI.calculate_movement_velocity\<close> (Your Choice), whenever
  avoidance is active and the net avoidance vector is longer than 0.01, the velocity is the
  target speed times the normalised blend of the desired direction with weight \<open>1 - w\<close> and
  the avoidance direction with weight \<open>w\<close>, where \<open>w\<close> is 0.2 for a dot product of the two
  directions below -0.7, 0.4 for one from -0.7 up to -0.2, and 0.8 otherwise. The boundary
  -0.5 is that of \<open>DefenseCar.move_to_target\<close> (Attack): under the same condition its
  weights are 0.1 below -0.5, 0.3 from -0.5 up to 0, and 0.7 otherwise. The witness is the
  car of the counterexample, at a dot product of -0.6: weight 0.4 in the first function,
  0.1 in the second (with the helpers of Your Choice/utils.py for the two parameters).
\<close>

theorem blend_weight_by_opposition:
  "(steering_inputs c st hide_target pos obstacles = ((tx, ty), (adx, ady, True)) \<and>
    distance 0 0 adx ady > 0.01 \<longrightarrow>
      calculate_movement_velocity c st hide_target (Some pos) obstacles =
        (let mag = distance 0 0 adx ady;
             dot = tx * (adx / mag) + ty * (ady / mag);
             w = (if dot < - 0.7 then 0.2 else if dot < - 0.2 then 0.4 else 0.8);
             final = normalize_vector (tx * (1 - w) + adx / mag * w) (ty * (1 - w) + ady / mag * w);
             target_speed = target_speed_of c st
                              (distance 0 0 (fst pos - fst (get_position c))
                                            (snd pos - snd (get_position c)))
         in (fst final * target_speed, snd final * target_speed))) \<and>
   (move_to_target_inputs distance_fn normalize_fn c' pos' obstacles'
      = ((tx', ty'), speed, Inr (adx', ady', True)) \<and>
    sqrt (adx'\<^sup>2 + ady'\<^sup>2) > 0.01 \<longrightarrow>
      move_to_target distance_fn normalize_fn c' (Some pos') obstacles' =
        Inr (let mag = sqrt (adx'\<^sup>2 + ady'\<^sup>2);
                 dot = tx' * (adx' / mag) + ty' * (ady' / mag);
                 w = (if dot < - 0.5 then 0.1 else if dot < 0 then 0.3 else 0.7);
                 final = normalize_fn (tx' * (1 - w) + adx' / mag * w)
                                      (ty' * (1 - w) + ady' / mag * w)
             in (fst final * speed, snd final * speed)))"
  by (simp add: calculate_movement_velocity_def blend_direction_def opposition_dot_of_def
        avoid_weight_def move_to_target_def Let_def)

theorem blend_weight_by_opposition_witness:
  "steering_inputs \<lparr>car_x = 85, car_y = 80, car_width = 30, car_height = 40, car_max_speed = 4\<rparr>
      EVADE None (200, 100) [\<lparr>obs_x = 110, obs_y = 40, obs_size = 40\<rparr>]
     = ((1, 0), (- (1 / 5), 4 / 15, True)) \<and>
   distance 0 0 (- (1 / 5)) (4 / 15) > 0.01 \<and>
   calculate_movement_velocity
      \<lparr>car_x = 85, car_y = 80, car_width = 30, car_height = 40, car_max_speed = 4\<rparr>
      EVADE None (Some (200, 100)) [\<lparr>obs_x = 110, obs_y = 40, obs_size = 40\<rparr>]
     = (fst (normalize_vector (1 * (1 - 2 / 5) + - (3 / 5) * (2 / 5))
                              (0 * (1 - 2 / 5) + 4 / 5 * (2 / 5))) * 4,
        snd (normalize_vector (1 * (1 - 2 / 5) + - (3 / 5) * (2 / 5))
                              (0 * (1 - 2 / 5) + 4 / 5 * (2 / 5))) * 4) \<and>
   move_to_target_inputs distance normalize_vector
      \<lparr>car_x = 85, car_y = 80, car_width = 30, car_height = 40, car_max_speed = 4\<rparr>
      (226, 100) [\<lparr>obs_x = 110, obs_y = 40, obs_size = 40\<rparr>]
     = ((1, 0), 4, Inr (- (1 / 5), 4 / 15, True)) \<and>
   sqrt ((- (1 / 5))\<^sup>2 + (4 / 15)\<^sup>2) > 0.01 \<and>
   move_to_target distance normalize_vector
      \<lparr>car_x = 85, car_y = 80, car_width = 30, car_height = 40, car_max_speed = 4\<rparr>
      (Some (226, 100)) [\<lparr>obs_x = 110, obs_y = 40, obs_size = 40\<rparr>]
     = Inr (fst (normalize_vector (1 * (1 - 1 / 10) + - (3 / 5) * (1 / 10))
                                  (0 * (1 - 1 / 10) + 4 / 5 * (1 / 10))) * 4,
            snd (normalize_vector (1 * (1 - 1 / 10) + - (3 / 5) * (1 / 10))
                                  (0 * (1 - 1 / 10) + 4 / 5 * (1 / 10))) * 4)"
  using blend_weight_by_opposition
          [of "\<lparr>car_x = 85, car_y = 80, car_width = 30, car_height = 40, car_max_speed = 4\<rparr>"
              EVADE None "(200, 100)" "[\<lparr>obs_x = 110, obs_y = 40, obs_size = 40\<rparr>]"
              1 0 "- (1 / 5)" "4 / 15"
              distance normalize_vector
              "\<lparr>car_x = 85, car_y = 80, car_width = 30, car_height = 40, car_max_speed = 4\<rparr>"
              "(226, 100)" "[\<lparr>obs_x = 110, obs_y = 40, obs_size = 40\<rparr>]"
              1 0 4 "- (1 / 5)" "4 / 15"]
  by (simp add: steering_inputs_example move_to_target_inputs_example distance_avoidance_example
        sqrt_avoidance_example target_speed_of_def get_position_def Let_def)

section \<open>The cover-point search\<close>

lemma potential_spots_safe:
  "(s, d) \<in> set (potential_spots defense_pos player_pos obstacles cands) \<Longrightarrow>
     check_line_of_sight player_pos s obstacles"
  by (auto simp: potential_spots_def Let_def is_safe_def split: if_splits)

text \<open>
  Claim C2. Whenever \<open>find_best_hiding_spot\<close> returns a position, the line-of-sight check
  from the threat position to that position reports blocked. The witness is the scenario of
  the specification: an obstacle of size 40 centred at (300, 300), the threat at (300, 100),
  the defender at (300, 500); the spot is (300, 380).
\<close>

theorem hiding_spot_is_hidden:
  assumes "find_best_hiding_spot defense_car player_car obstacles = Some r"
  shows "check_line_of_sight (get_position player_car) r obstacles"
proof -
  let ?spots = "potential_spots (get_position defense_car) (get_position player_car) obstacles
       (map fst (take MAX_HIDE_SEARCH_OBSTACLES
          (sort_key snd (candidate_obstacles (get_position defense_car)
                           (get_position player_car) obstacles))))"
  from assms obtain best rest where b: "sort_key snd ?spots = best # rest" and r: "r = fst best"
    by (auto simp: find_best_hiding_spot_def Let_def split: list.splits)
  have "best \<in> set (sort_key snd ?spots)" using b by simp
  then have "best \<in> set ?spots" by simp
  then have "(r, snd best) \<in> set ?spots" using r by simp
  then show ?thesis by (rule potential_spots_safe)
qed

theorem hiding_spot_is_hidden_witness:
  "find_best_hiding_spot
       \<lparr>car_x = 285, car_y = 480, car_width = 30, car_height = 40, car_max_speed = 4\<rparr>
       \<lparr>car_x = 285, car_y = 80, car_width = 30, car_height = 40, car_max_speed = 5\<rparr>
       [\<lparr>obs_x = 280, obs_y = 280, obs_size = 40\<rparr>] = Some (300, 380) \<and>
   check_line_of_sight
       (get_position \<lparr>car_x = 285, car_y = 80, car_width = 30, car_height = 40, car_max_speed = 5\<rparr>)
       (300, 380) [\<lparr>obs_x = 280, obs_y = 280, obs_size = 40\<rparr>]"
proof -
  have f: "find_best_hiding_spot
       \<lparr>car_x = 285, car_y = 480, car_width = 30, car_height = 40, car_max_speed = 4\<rparr>
       \<lparr>car_x = 285, car_y = 80, car_width = 30, car_height = 40, car_max_speed = 5\<rparr>
       [\<lparr>obs_x = 280, obs_y = 280, obs_size = 40\<rparr>] = Some (300, 380)"
    by (simp add: find_best_hiding_spot_def Let_def get_position_def candidate_obstacles_def
        obs_center_def rect_centerx_def rect_centery_def obs_rect_def angle_deg_of_def
        HIDE_TRIGGER_DISTANCE_def OBSTACLE_SORT_WEIGHT_DIST_def OBSTACLE_SORT_WEIGHT_ANGLE_def
        MAX_HIDE_SEARCH_OBSTACLES_def potential_spots_def normalize_vector_def
        BUFFER_BEHIND_OBSTACLE_def CAR_HEIGHT_def SCREEN_WIDTH_def SCREEN_HEIGHT_def
        is_safe_def check_line_of_sight_def los_march.simps step_size_def collidepoint_def)
  show ?thesis using f hiding_spot_is_hidden [OF f] by simp
qed

section \<open>The defence FSM\<close>

lemma handle_hide_no_target:
  "current_hide_target f = None \<Longrightarrow> handle_hide f d p obs = hide_search f d p obs"
  by (subst handle_hide.simps) (simp add: Let_def hide_search_def)

lemma handle_hide_unfold:
  "handle_hide f d p obs =
     (case current_hide_target f of
        None \<Rightarrow> hide_search f d p obs
      | Some t \<Rightarrow>
          if distance (fst (get_position d)) (snd (get_position d)) (fst t) (snd t) < 20
          then (if is_safe (get_position d) (get_position p) obs then (f, get_position d)
                else hide_search (f\<lparr>current_hide_target := None\<rparr>) d p obs)
          else if is_safe t (get_position p) obs then (f, t)
          else hide_search (f\<lparr>current_hide_target := None\<rparr>) d p obs)"
proof (cases "current_hide_target f")
  case None
  then show ?thesis by (simp add: handle_hide_no_target)
next
  case (Some t)
  have rec: "handle_hide (f\<lparr>current_hide_target := None\<rparr>) d p obs
               = hide_search (f\<lparr>current_hide_target := None\<rparr>) d p obs"
    by (rule handle_hide_no_target) simp
  show ?thesis
    using Some by (subst handle_hide.simps) (simp add: Let_def rec hide_search_def)
qed

lemma hide_search_fields: "\<exists>h. fst (hide_search f d p obs) = f\<lparr>current_hide_target := h\<rparr>"
proof (cases "find_best_hiding_spot d p obs")
  case None
  then have "fst (hide_search f d p obs) = f\<lparr>current_hide_target := current_hide_target f\<rparr>"
    by (simp add: hide_search_def)
  then show ?thesis by blast
next
  case (Some s)
  then have "fst (hide_search f d p obs) = f\<lparr>current_hide_target := Some s\<rparr>"
    by (simp add: hide_search_def)
  then show ?thesis by blast
qed

lemma handle_hide_fields:
  "\<exists>h. fst (handle_hide f d p obs) = f\<lparr>current_hide_target := h\<rparr>"
proof -
  have keep: "\<exists>h. f = f\<lparr>current_hide_target := h\<rparr>"
    by (rule exI [of _ "current_hide_target f"]) simp
  have cleared: "\<exists>h. fst (hide_search (f\<lparr>current_hide_target := None\<rparr>) d p obs) = f\<lparr>current_hide_target := h\<rparr>"
    using hide_search_fields [of "f\<lparr>current_hide_target := None\<rparr>" d p obs] by simp
  show ?thesis
    unfolding handle_hide_unfold
    using keep cleared hide_search_fields [of f d p obs]
    by (simp split: option.split)
qed

lemma handle_hide_state:
  "current_state (fst (handle_hide f d p obs)) = current_state f"
  "state_entry_time (fst (handle_hide f d p obs)) = state_entry_time f"
  "min_state_time (fst (handle_hide f d p obs)) = min_state_time f"
  "patrol_points (fst (handle_hide f d p obs)) = patrol_points f"
  "current_patrol_index (fst (handle_hide f d p obs)) = current_patrol_index f"
  using handle_hide_fields [of f d p obs] by auto


lemma next_state_very_close:
  "dtp < VERY_CLOSE_DISTANCE \<Longrightarrow> next_state_of f dtp safe now = EVADE"
  by (simp add: next_state_of_def)

lemma next_state_change:
  assumes "VERY_CLOSE_DISTANCE \<le> dtp" and "next_state_of f dtp safe now \<noteq> current_state f"
  shows "min_state_time f \<le> now - state_entry_time f"
    and "next_state_of f dtp safe now \<in> {HIDE, PATROL, IDLE}"
    and "next_state_of f dtp safe now = PATROL \<longrightarrow> patrol_points f \<noteq> []"
  using assms by (auto simp: next_state_of_def Let_def split: if_splits)

lemma next_state_patrol:
  "next_state_of f dtp safe now = PATROL \<Longrightarrow> current_state f = PATROL \<or> patrol_points f \<noteq> []"
  by (auto simp: next_state_of_def Let_def split: if_splits)

lemma after_transition_fields:
  "patrol_points (after_transition f dtp safe now) = patrol_points f"
  "current_patrol_index (after_transition f dtp safe now) = current_patrol_index f"
  "min_state_time (after_transition f dtp safe now) = min_state_time f"
  "current_state (after_transition f dtp safe now) = next_state_of f dtp safe now"
  by (auto simp: after_transition_def change_state_def)

lemma after_transition_entry:
  "state_entry_time (after_transition f dtp safe now) =
     (if next_state_of f dtp safe now \<noteq> current_state f then now else state_entry_time f)"
  by (auto simp: after_transition_def change_state_def)

lemma after_transition_ok: "fsm_ok f \<Longrightarrow> fsm_ok (after_transition f dtp safe now)"
  using next_state_patrol [of f dtp safe now]
  by (auto simp: fsm_ok_def after_transition_fields)

lemma run_handler_ok:
  assumes "fsm_ok f1"
  shows "\<exists>f2 tgt. run_handler f1 d p obs now = Inr (f2, tgt) \<and>
           patrol_points f2 = patrol_points f1 \<and> min_state_time f2 = min_state_time f1 \<and>
           fsm_ok f2 \<and>
           (current_state f2 = current_state f1 \<longrightarrow> state_entry_time f2 = state_entry_time f1) \<and>
           (current_state f2 \<noteq> current_state f1 \<longrightarrow>
              current_state f1 = RETURN_TO_SAFE_AREA \<and> state_entry_time f2 = now \<and>
              current_state f2 \<noteq> RETURN_TO_SAFE_AREA)"
proof (cases "current_state f1")
  case IDLE
  then show ?thesis using assms by (simp add: run_handler_def handle_idle_def)
next
  case EVADE
  then show ?thesis using assms by (simp add: run_handler_def)
next
  case PATROL
  then have ne: "patrol_points f1 \<noteq> []" and idx: "current_patrol_index f1 < length (patrol_points f1)"
    using assms by (auto simp: fsm_ok_def)
  then show ?thesis using PATROL
    by (auto simp: run_handler_def handle_patrol_def Let_def fsm_ok_def)
next
  case HIDE
  obtain h where h: "fst (handle_hide f1 d p obs) = f1\<lparr>current_hide_target := h\<rparr>"
    using handle_hide_fields by blast
  have "run_handler f1 d p obs now = Inr (fst (handle_hide f1 d p obs), snd (handle_hide f1 d p obs))"
    using HIDE by (simp add: run_handler_def)
  then show ?thesis using assms unfolding h by (simp add: fsm_ok_def)
next
  case RETURN_TO_SAFE_AREA
  let ?H = "handle_return_to_safe_area f1 d now"
  have rh: "run_handler f1 d p obs now = Inr (fst ?H, snd ?H)"
    using RETURN_TO_SAFE_AREA by (simp add: run_handler_def)
  have "fst ?H = f1 \<or> fst ?H = change_state f1 (if patrol_points f1 \<noteq> [] then PATROL else IDLE) now"
    by (simp add: handle_return_to_safe_area_def Let_def)
  then have "patrol_points (fst ?H) = patrol_points f1 \<and> min_state_time (fst ?H) = min_state_time f1 \<and>
           fsm_ok (fst ?H) \<and>
           (current_state (fst ?H) = current_state f1 \<longrightarrow> state_entry_time (fst ?H) = state_entry_time f1) \<and>
           (current_state (fst ?H) \<noteq> current_state f1 \<longrightarrow>
              current_state f1 = RETURN_TO_SAFE_AREA \<and> state_entry_time (fst ?H) = now \<and>
              current_state (fst ?H) \<noteq> RETURN_TO_SAFE_AREA)"
    using assms RETURN_TO_SAFE_AREA
    by (cases "patrol_points f1 = []") (auto simp: change_state_def fsm_ok_def)
  then show ?thesis using rh by blast
qed

lemma update_unfold:
  "update f d p obs now =
     (let dtp = distance (fst (get_position p)) (snd (get_position p))
                          (fst (get_position d)) (snd (get_position d));
          f1 = after_transition f dtp (is_safe (get_position d) (get_position p) obs) now
      in case run_handler f1 d p obs now of
           Inl e \<Rightarrow> Inl e
         | Inr (f2, tgt) \<Rightarrow> Inr (f2\<lparr>last_target_pos := Some tgt\<rparr>, tgt))"
  by (simp add: update_def after_transition_def Let_def split: sum.splits prod.splits)

lemma update_ok:
  assumes ok: "fsm_ok f"
  shows "\<exists>f' tgt. update f d p obs now = Inr (f', tgt) \<and> fsm_ok f' \<and>
           min_state_time f' = min_state_time f \<and>
           (current_state f' = current_state f \<longrightarrow> state_entry_time f' = state_entry_time f) \<and>
           (current_state f' \<noteq> current_state f \<longrightarrow>
              state_entry_time f' = now \<and> current_state f' \<noteq> RETURN_TO_SAFE_AREA) \<and>
           (current_state f' \<noteq> current_state f \<and> current_state f \<noteq> RETURN_TO_SAFE_AREA \<and>
            VERY_CLOSE_DISTANCE \<le> distance (fst (get_position p)) (snd (get_position p))
                                    (fst (get_position d)) (snd (get_position d))
              \<longrightarrow> min_state_time f \<le> now - state_entry_time f)"
proof -
  let ?dtp = "distance (fst (get_position p)) (snd (get_position p))
                        (fst (get_position d)) (snd (get_position d))"
  let ?safe = "is_safe (get_position d) (get_position p) obs"
  let ?n = "next_state_of f ?dtp ?safe now"
  let ?f1 = "after_transition f ?dtp ?safe now"
  have ok1: "fsm_ok ?f1" using ok by (rule after_transition_ok)
  from run_handler_ok [OF ok1, of d p obs now]
  obtain f2 tgt where rh: "run_handler ?f1 d p obs now = Inr (f2, tgt)"
    and pp: "patrol_points f2 = patrol_points ?f1" and ms: "min_state_time f2 = min_state_time ?f1"
    and ok2: "fsm_ok f2"
    and same: "current_state f2 = current_state ?f1 \<longrightarrow> state_entry_time f2 = state_entry_time ?f1"
    and diff: "current_state f2 \<noteq> current_state ?f1 \<longrightarrow>
              current_state ?f1 = RETURN_TO_SAFE_AREA \<and> state_entry_time f2 = now \<and>
              current_state f2 \<noteq> RETURN_TO_SAFE_AREA"
    by blast
  let ?f' = "f2\<lparr>last_target_pos := Some tgt\<rparr>"
  have upd: "update f d p obs now = Inr (?f', tgt)"
    by (simp add: update_unfold Let_def rh)
  have ok': "fsm_ok ?f'" using ok2 by (simp add: fsm_ok_def)
  have ms': "min_state_time ?f' = min_state_time f" using ms by (simp add: after_transition_fields)
  have cs1: "current_state ?f1 = ?n" by (simp add: after_transition_fields)
  have ret: "?n = RETURN_TO_SAFE_AREA \<Longrightarrow> current_state f = RETURN_TO_SAFE_AREA"
    by (auto simp: next_state_of_def Let_def split: if_splits)
  have A: "current_state ?f' = current_state f \<longrightarrow> state_entry_time ?f' = state_entry_time f"
  proof
    assume e: "current_state ?f' = current_state f"
    show "state_entry_time ?f' = state_entry_time f"
    proof (cases "current_state f2 = ?n")
      case True
      then have "?n = current_state f" using e by simp
      then show ?thesis using same True cs1 by (simp add: after_transition_entry)
    next
      case False
      then have "?n = RETURN_TO_SAFE_AREA" and "current_state f2 \<noteq> RETURN_TO_SAFE_AREA"
        using diff cs1 by auto
      then show ?thesis using ret e by simp
    qed
  qed
  have B: "current_state ?f' \<noteq> current_state f \<longrightarrow>
              state_entry_time ?f' = now \<and> current_state ?f' \<noteq> RETURN_TO_SAFE_AREA"
  proof
    assume ne: "current_state ?f' \<noteq> current_state f"
    show "state_entry_time ?f' = now \<and> current_state ?f' \<noteq> RETURN_TO_SAFE_AREA"
    proof (cases "current_state f2 = ?n")
      case True
      then have "?n \<noteq> current_state f" using ne by simp
      moreover have "?n \<noteq> RETURN_TO_SAFE_AREA" using ret calculation by auto
      ultimately show ?thesis using same True cs1 by (simp add: after_transition_entry)
    next
      case False
      then show ?thesis using diff cs1 by auto
    qed
  qed
  have C: "current_state ?f' \<noteq> current_state f \<and> current_state f \<noteq> RETURN_TO_SAFE_AREA \<and>
            VERY_CLOSE_DISTANCE \<le> ?dtp \<longrightarrow> min_state_time f \<le> now - state_entry_time f"
  proof
    assume h: "current_state ?f' \<noteq> current_state f \<and> current_state f \<noteq> RETURN_TO_SAFE_AREA \<and>
            VERY_CLOSE_DISTANCE \<le> ?dtp"
    have "?n \<noteq> current_state f"
    proof
      assume e: "?n = current_state f"
      then have "current_state ?f1 \<noteq> RETURN_TO_SAFE_AREA" using h cs1 by simp
      then have "current_state f2 = current_state ?f1" using diff by blast
      then show False using h e cs1 by simp
    qed
    then show "min_state_time f \<le> now - state_entry_time f"
      using next_state_change(1) h by blast
  qed
  show ?thesis using upd ok' ms' A B C by blast
qed

lemma update_very_close:
  assumes "distance (fst (get_position p)) (snd (get_position p))
                    (fst (get_position d)) (snd (get_position d)) < VERY_CLOSE_DISTANCE"
  shows "\<exists>f' tgt. update f d p obs now = Inr (f', tgt) \<and> current_state f' = EVADE"
  using assms
  by (simp add: update_unfold Let_def after_transition_def next_state_very_close
        run_handler_def change_state_def)


lemma dwell_cons:
  "dwell_respected d L \<Longrightarrow> L = [] \<or> d \<le> hd L - a \<Longrightarrow> dwell_respected d (a # L)"
  by (cases L) auto

lemma run_dwell:
  assumes "fsm_ok f" and "\<forall>t\<in>set ticks. VERY_CLOSE_DISTANCE \<le> tick_distance t"
  shows "\<exists>fs. run f ticks = Inr fs \<and> length fs = length ticks \<and>
           dwell_respected (min_state_time f) (change_times (current_state f) (state_trace ticks fs)) \<and>
           (change_times (current_state f) (state_trace ticks fs) \<noteq> [] \<and>
            current_state f \<noteq> RETURN_TO_SAFE_AREA \<longrightarrow>
              min_state_time f \<le> hd (change_times (current_state f) (state_trace ticks fs))
                                  - state_entry_time f)"
  using assms
proof (induction ticks arbitrary: f)
  case Nil
  then show ?case by (simp add: state_trace_def)
next
  case (Cons t ts)
  let ?d = "tick_defender t" and ?p = "tick_player t" and ?o = "tick_obstacles t" and ?now = "tick_now t"
  have far: "VERY_CLOSE_DISTANCE \<le> distance (fst (get_position ?p)) (snd (get_position ?p))
                                    (fst (get_position ?d)) (snd (get_position ?d))"
    using Cons.prems(2) by (simp add: tick_distance_def)
  from update_ok [OF Cons.prems(1), where d = ?d and p = ?p and obs = ?o and now = ?now]
  obtain f' tgt where upd: "update f ?d ?p ?o ?now = Inr (f', tgt)" and ok': "fsm_ok f'"
    and ms: "min_state_time f' = min_state_time f"
    and same: "current_state f' = current_state f \<longrightarrow> state_entry_time f' = state_entry_time f"
    and diff: "current_state f' \<noteq> current_state f \<longrightarrow>
              state_entry_time f' = ?now \<and> current_state f' \<noteq> RETURN_TO_SAFE_AREA"
    and dwell: "current_state f' \<noteq> current_state f \<and> current_state f \<noteq> RETURN_TO_SAFE_AREA \<and>
            VERY_CLOSE_DISTANCE \<le> distance (fst (get_position ?p)) (snd (get_position ?p))
                                    (fst (get_position ?d)) (snd (get_position ?d))
              \<longrightarrow> min_state_time f \<le> ?now - state_entry_time f"
    by blast
  have far': "\<forall>t\<in>set ts. VERY_CLOSE_DISTANCE \<le> tick_distance t" using Cons.prems(2) by simp
  from Cons.IH [OF ok' far']
  obtain fs where r: "run f' ts = Inr fs" and len: "length fs = length ts"
    and dw: "dwell_respected (min_state_time f') (change_times (current_state f') (state_trace ts fs))"
    and first: "change_times (current_state f') (state_trace ts fs) \<noteq> [] \<and>
            current_state f' \<noteq> RETURN_TO_SAFE_AREA \<longrightarrow>
              min_state_time f' \<le> hd (change_times (current_state f') (state_trace ts fs))
                                  - state_entry_time f'"
    by blast
  let ?L' = "change_times (current_state f') (state_trace ts fs)"
  have run: "run f (t # ts) = Inr (f' # fs)" by (simp add: upd r)
  have tr: "state_trace (t # ts) (f' # fs) = (?now, current_state f') # state_trace ts fs"
    by (simp add: state_trace_def)
  show ?case
  proof (cases "current_state f' = current_state f")
    case True
    have L: "change_times (current_state f) (state_trace (t # ts) (f' # fs)) = ?L'"
      using True by (simp add: tr)
    have "run f (t # ts) = Inr (f' # fs) \<and> length (f' # fs) = length (t # ts) \<and>
           dwell_respected (min_state_time f)
             (change_times (current_state f) (state_trace (t # ts) (f' # fs))) \<and>
           (change_times (current_state f) (state_trace (t # ts) (f' # fs)) \<noteq> [] \<and>
            current_state f \<noteq> RETURN_TO_SAFE_AREA \<longrightarrow>
              min_state_time f \<le> hd (change_times (current_state f) (state_trace (t # ts) (f' # fs)))
                                  - state_entry_time f)"
      unfolding L using run len dw first True same ms by simp
    then show ?thesis by blast
  next
    case False
    have L: "change_times (current_state f) (state_trace (t # ts) (f' # fs)) = ?now # ?L'"
      using False by (simp add: tr)
    have e: "state_entry_time f' = ?now" and nr: "current_state f' \<noteq> RETURN_TO_SAFE_AREA"
      using diff False by auto
    have "?L' = [] \<or> min_state_time f \<le> hd ?L' - ?now"
      using first nr e ms by auto
    then have dw': "dwell_respected (min_state_time f) (?now # ?L')"
      using dw ms by (intro dwell_cons) auto
    have "run f (t # ts) = Inr (f' # fs) \<and> length (f' # fs) = length (t # ts) \<and>
           dwell_respected (min_state_time f)
             (change_times (current_state f) (state_trace (t # ts) (f' # fs))) \<and>
           (change_times (current_state f) (state_trace (t # ts) (f' # fs)) \<noteq> [] \<and>
            current_state f \<noteq> RETURN_TO_SAFE_AREA \<longrightarrow>
              min_state_time f \<le> hd (change_times (current_state f) (state_trace (t # ts) (f' # fs)))
                                  - state_entry_time f)"
      unfolding L using run len dw' dwell False far by simp
    then show ?thesis by blast
  qed
qed

lemma safe_near: "\<not> is_safe (get_position defender0) (get_position player_near) wall0"
  by (simp add: is_safe_def check_line_of_sight_def get_position_def defender0_def player_near_def
        wall0_def Let_def normalize_vector_def los_march.simps step_size_def collidepoint_def obs_rect_def)

lemma safe_far: "is_safe (get_position defender0) (get_position player_far) wall0"
  by (simp add: is_safe_def check_line_of_sight_def get_position_def defender0_def player_far_def
        wall0_def Let_def normalize_vector_def los_march.simps step_size_def collidepoint_def obs_rect_def)

lemma no_spot_near: "find_best_hiding_spot defender0 player_near wall0 = None"
  by (simp add: find_best_hiding_spot_def candidate_obstacles_def potential_spots_def Let_def
        get_position_def defender0_def player_near_def wall0_def obs_center_def obs_rect_def
        rect_centerx_def rect_centery_def HIDE_TRIGGER_DISTANCE_def)

lemma no_spot_far: "find_best_hiding_spot defender0 player_far wall0 = None"
  by (simp add: find_best_hiding_spot_def candidate_obstacles_def potential_spots_def Let_def
        get_position_def defender0_def player_far_def wall0_def obs_center_def obs_rect_def
        rect_centerx_def rect_centery_def HIDE_TRIGGER_DISTANCE_def)

lemma dist_near: "distance (fst (get_position player_near)) (snd (get_position player_near))
     (fst (get_position defender0)) (snd (get_position defender0)) = 300"
  by (simp add: get_position_def defender0_def player_near_def)

lemma dist_far: "distance (fst (get_position player_far)) (snd (get_position player_far))
     (fst (get_position defender0)) (snd (get_position defender0)) = 850"
  by (simp add: get_position_def defender0_def player_far_def)

lemma osc_states:
  "\<exists>fs. run fsm_init osc_ticks = Inr fs \<and> map current_state fs = [HIDE, HIDE, HIDE, IDLE]"
  by (simp add: osc_ticks_def update_unfold Let_def dist_near dist_far safe_near safe_far
        after_transition_def next_state_of_def fsm_init_def change_state_def
        VERY_CLOSE_DISTANCE_def HIDE_TRIGGER_DISTANCE_def run_handler_def
        handle_hide_unfold hide_search_def no_spot_near no_spot_far handle_idle_def
        split: sum.splits prod.splits)


text \<open>
  Claim C3. In a run of \<open>update\<close> calls in which the threat never comes closer than the
  very-close distance, started from a well-formed FSM, no call raises and any two successive
  changes of the current state are at least the minimum dwell time apart, however the
  threat distance moves across the hide-trigger boundary. And whenever the threat is closer
  than the very-close distance, the state after \<open>update\<close> is \<open>EVADE\<close>, whatever the clock and
  the FSM are. The witness is a run in which the threat crosses the boundary at 600, 700,
  800 and 1100 ms: the state changes at 600 and at 1100 only; and a call at 100 ms with the
  threat 40 units away.
\<close>

theorem fsm_dwell_and_very_close_override:
  "(fsm_ok f \<and> (\<forall>t\<in>set ticks. VERY_CLOSE_DISTANCE \<le> tick_distance t) \<longrightarrow>
      (\<exists>fs. run f ticks = Inr fs \<and> length fs = length ticks \<and>
         dwell_respected (min_state_time f)
           (change_times (current_state f) (state_trace ticks fs)))) \<and>
   (distance (fst (get_position p)) (snd (get_position p))
             (fst (get_position d)) (snd (get_position d)) < VERY_CLOSE_DISTANCE \<longrightarrow>
      (\<exists>f' tgt. update f d p obs now = Inr (f', tgt) \<and> current_state f' = EVADE))"
  using run_dwell [where f = f and ticks = ticks]
    update_very_close [where p = p and d = d and f = f and obs = obs and now = now] by blast

theorem fsm_dwell_and_very_close_override_witness:
  "fsm_ok fsm_init \<and>
   list_all (\<lambda>t. VERY_CLOSE_DISTANCE \<le> tick_distance t) osc_ticks \<and>
   (\<exists>fs. run fsm_init osc_ticks = Inr fs \<and>
          map current_state fs = [HIDE, HIDE, HIDE, IDLE] \<and>
          change_times (current_state fsm_init) (state_trace osc_ticks fs) = [600, 1100] \<and>
          dwell_respected (min_state_time fsm_init)
            (change_times (current_state fsm_init) (state_trace osc_ticks fs))) \<and>
   distance (fst (get_position player_touching)) (snd (get_position player_touching))
            (fst (get_position defender0)) (snd (get_position defender0)) < VERY_CLOSE_DISTANCE \<and>
   (\<exists>f' tgt. update fsm_init defender0 player_touching wall0 100 = Inr (f', tgt) \<and>
              current_state f' = EVADE)"
proof -
  have ok: "fsm_ok fsm_init" by (simp add: fsm_ok_def fsm_init_def)
  have far: "\<forall>t\<in>set osc_ticks. VERY_CLOSE_DISTANCE \<le> tick_distance t"
    by (simp add: osc_ticks_def tick_distance_def dist_near dist_far VERY_CLOSE_DISTANCE_def)
  have close: "distance (fst (get_position player_touching)) (snd (get_position player_touching))
            (fst (get_position defender0)) (snd (get_position defender0)) < VERY_CLOSE_DISTANCE"
    by (simp add: get_position_def player_touching_def defender0_def VERY_CLOSE_DISTANCE_def)
  note inst = fsm_dwell_and_very_close_override
               [where f = fsm_init and ticks = osc_ticks and p = player_touching
                  and d = defender0 and obs = wall0 and now = 100]
  from inst ok far obtain fs where r: "run fsm_init osc_ticks = Inr fs"
    and dw: "dwell_respected (min_state_time fsm_init)
               (change_times (current_state fsm_init) (state_trace osc_ticks fs))"
    by blast
  from osc_states r have st: "map current_state fs = [HIDE, HIDE, HIDE, IDLE]" by simp
  have ct: "change_times (current_state fsm_init) (state_trace osc_ticks fs) = [600, 1100]"
    by (simp add: state_trace_def st osc_ticks_def fsm_init_def)
  from inst close have ev: "\<exists>f' tgt. update fsm_init defender0 player_touching wall0 100 = Inr (f', tgt) \<and>
              current_state f' = EVADE" by blast
  have la: "list_all (\<lambda>t. VERY_CLOSE_DISTANCE \<le> tick_distance t) osc_ticks"
    using far by (simp add: list_all_iff)
  have ex: "\<exists>fs. run fsm_init osc_ticks = Inr fs \<and>
          map current_state fs = [HIDE, HIDE, HIDE, IDLE] \<and>
          change_times (current_state fsm_init) (state_trace osc_ticks fs) = [600, 1100] \<and>
          dwell_respected (min_state_time fsm_init)
            (change_times (current_state fsm_init) (state_trace osc_ticks fs))"
    by (rule exI [of _ fs]) (intro conjI r st ct dw)
  show ?thesis by (intro conjI ok la ex close ev)
qed



section \<open>The pathfinder\<close>

lemma astar_inv_start: "astar_inv s st \<Longrightarrow> came_from st s = Some None \<and> g_score st s = Some 0"
  unfolding astar_inv_def by blast

lemma astar_inv_parent:
  "astar_inv s st \<Longrightarrow> came_from st n = Some (Some p) \<Longrightarrow>
     \<exists>gn gp. g_score st n = Some gn \<and> g_score st p = Some gp \<and> gp + 1 \<le> gn"
  unfolding astar_inv_def by blast

lemma astar_inv_root: "astar_inv s st \<Longrightarrow> came_from st n = Some None \<Longrightarrow> n = s"
  unfolding astar_inv_def by blast

lemma astar_inv_g: "astar_inv s st \<Longrightarrow> g_score st n = Some v \<Longrightarrow> 0 \<le> v \<and> came_from st n \<noteq> None"
  unfolding astar_inv_def by blast

lemma astar_inv_open: "astar_inv s st \<Longrightarrow> x \<in> set (open_list st) \<Longrightarrow> g_score st (snd (snd x)) \<noteq> None"
  unfolding astar_inv_def by blast

lemma astar_inv_init: "astar_inv s (astar_init s e)"
  by (simp add: astar_inv_def astar_init_def Let_def)

lemma move_cost_ge1: "d \<in> set directions \<Longrightarrow> 1 \<le> move_cost d"
  by (auto simp: directions_def move_cost_def move_costs_def)

lemma astar_relax_inv:
  assumes inv: "astar_inv s st" and d: "d \<in> set directions" and gc: "g_score st c \<noteq> None"
  shows "\<exists>st'. astar_relax g e c st d = Inr st' \<and> astar_inv s st' \<and> g_score st' c \<noteq> None"
proof -
  let ?nb = "(fst c + fst d, snd c + snd d)"
  from gc obtain g_c where g_c: "g_score st c = Some g_c" by auto
  have g_c0: "0 \<le> g_c" using astar_inv_g [OF inv g_c] by simp
  let ?t = "g_c + move_cost d"
  have t1: "g_c + 1 \<le> ?t" using move_cost_ge1 [OF d] by simp
  show ?thesis
  proof (cases "in_bounds ?nb \<and> cell g ?nb \<noteq> 1 \<and>
                (case g_score st ?nb of None \<Rightarrow> True | Some g_old \<Rightarrow> ?t < g_old)")
    case False
    then have "astar_relax g e c st d = Inr st"
      using g_c by (auto simp: astar_relax_def Let_def)
    then show ?thesis using inv gc by simp
  next
    case True
    let ?st' = "st\<lparr>came_from := (came_from st)(?nb \<mapsto> Some c),
                   g_score := (g_score st)(?nb \<mapsto> ?t),
                   open_list := open_list st @ [(?t + heuristic ?nb e, heuristic ?nb e, ?nb)]\<rparr>"
    have r: "astar_relax g e c st d = Inr ?st'"
      using True g_c by (simp add: astar_relax_def Let_def)
    have better: "\<And>v. g_score st ?nb = Some v \<Longrightarrow> ?t < v" using True by auto
    have nb_s: "?nb \<noteq> s"
    proof
      assume "?nb = s"
      then have "g_score st ?nb = Some 0" using astar_inv_start [OF inv] by simp
      from better [OF this] g_c0 t1 show False by simp
    qed
    have nb_c: "?nb \<noteq> c"
    proof
      assume "?nb = c"
      then have "g_score st ?nb = Some g_c" using g_c by simp
      from better [OF this] t1 show False by simp
    qed
    have i1: "came_from ?st' s = Some None" "g_score ?st' s = Some 0"
      using astar_inv_start [OF inv] nb_s by auto
    have i2: "\<exists>gn gp. g_score ?st' n = Some gn \<and> g_score ?st' p = Some gp \<and> gp + 1 \<le> gn"
      if cf: "came_from ?st' n = Some (Some p)" for n p
    proof (cases "n = ?nb")
      case True
      then have "p = c" using cf by simp
      then show ?thesis using True g_c nb_c t1 by simp
    next
      case False
      then have "came_from st n = Some (Some p)" using cf by simp
      then obtain gn gp where gn: "g_score st n = Some gn" and gp: "g_score st p = Some gp"
        and le: "gp + 1 \<le> gn" using astar_inv_parent [OF inv] by blast
      show ?thesis
      proof (cases "p = ?nb")
        case True
        then have "?t < gp" using better gp by simp
        then show ?thesis using False True gn le by simp
      next
        case pf: False
        then show ?thesis using False gn gp le by simp
      qed
    qed
    have i3: "n = s" if "came_from ?st' n = Some None" for n
      using that astar_inv_root [OF inv, of n] by (cases "n = ?nb") auto
    have i4: "0 \<le> v \<and> came_from ?st' n \<noteq> None" if "g_score ?st' n = Some v" for n v
      using that astar_inv_g [OF inv, of n v] g_c0 t1 by (cases "n = ?nb") auto
    have i5: "\<forall>x \<in> set (open_list ?st'). g_score ?st' (snd (snd x)) \<noteq> None"
      using astar_inv_open [OF inv] by auto
    have "astar_inv s ?st'"
      unfolding astar_inv_def using i1 i2 i3 i4 i5 by blast
    moreover have "g_score ?st' c \<noteq> None" using g_c by simp
    ultimately show ?thesis using r by blast
  qed
qed

lemma astar_neighbors_inv:
  assumes "astar_inv s st" and "set ds \<subseteq> set directions" and "g_score st c \<noteq> None"
  shows "\<exists>st'. astar_neighbors g e c st ds = Inr st' \<and> astar_inv s st'"
  using assms
proof (induction ds arbitrary: st)
  case Nil
  then show ?case by simp
next
  case (Cons d ds)
  from astar_relax_inv [OF Cons.prems(1) _ Cons.prems(3), of d g e] Cons.prems(2)
  obtain st1 where r: "astar_relax g e c st d = Inr st1" and i: "astar_inv s st1"
    and gc: "g_score st1 c \<noteq> None" by auto
  from Cons.IH [OF i _ gc] Cons.prems(2)
  obtain st' where "astar_neighbors g e c st1 ds = Inr st'" and "astar_inv s st'" by auto
  then show ?case using r by simp
qed

lemma astar_inv_pop:
  assumes "astar_inv s st" and "set rest \<subseteq> set (open_list st)"
  shows "astar_inv s (st\<lparr>open_list := rest, closed_set := cl\<rparr>)"
    and "astar_inv s (st\<lparr>open_list := rest\<rparr>)"
  using assms by (auto simp: astar_inv_def)

lemma reconstruct_loop_None: "reconstruct_loop cf None acc = Some acc"
  by (subst reconstruct_loop.simps) simp

lemma reconstruct_loop_Some:
  "reconstruct_loop cf (Some n) acc =
     reconstruct_loop cf (case cf n of None \<Rightarrow> None | Some parent \<Rightarrow> parent)
       (acc @ [grid_to_world n])"
  by (subst reconstruct_loop.simps) simp

lemma reconstruct_loop_total:
  assumes inv: "astar_inv s st"
  shows "g_score st n = Some v \<Longrightarrow> v < real k \<Longrightarrow>
         \<exists>ps. reconstruct_loop (came_from st) (Some n) acc = Some (acc @ ps) \<and>
              ps \<noteq> [] \<and> last ps = grid_to_world s \<and> hd ps = grid_to_world n"
proof (induction k arbitrary: n v acc)
  case 0
  then have "0 \<le> v" using astar_inv_g [OF inv] by blast
  with 0 show ?case by simp
next
  case (Suc k)
  from Suc.prems(1) have cfn: "came_from st n \<noteq> None" using astar_inv_g [OF inv] by blast
  then obtain par where par: "came_from st n = Some par" by auto
  show ?case
  proof (cases par)
    case None
    then have "n = s" using par astar_inv_root [OF inv] by blast
    then have "reconstruct_loop (came_from st) (Some n) acc = Some (acc @ [grid_to_world s])"
      using par None by (simp add: reconstruct_loop_Some reconstruct_loop_None)
    then show ?thesis using \<open>n = s\<close> by simp
  next
    case (Some p)
    then have "came_from st n = Some (Some p)" using par by simp
    then obtain gn gp where gn: "g_score st n = Some gn" and gp: "g_score st p = Some gp"
      and le: "gp + 1 \<le> gn" using astar_inv_parent [OF inv] by blast
    have "gp < real k" using le gn Suc.prems by simp
    from Suc.IH [OF gp this, of "acc @ [grid_to_world n]"]
    obtain ps where ps: "reconstruct_loop (came_from st) (Some p) (acc @ [grid_to_world n])
                           = Some ((acc @ [grid_to_world n]) @ ps)"
      and ne: "ps \<noteq> []" and l: "last ps = grid_to_world s" by blast
    have "reconstruct_loop (came_from st) (Some n) acc = Some (acc @ (grid_to_world n # ps))"
      using par Some ps by (simp add: reconstruct_loop_Some)
    then show ?thesis using ne l by auto
  qed
qed

lemma reconstruct_path_total:
  assumes inv: "astar_inv s st" and g: "g_score st n \<noteq> None"
  shows "\<exists>res. reconstruct_path (came_from st) n = Some res \<and> res \<noteq> [] \<and>
               hd res = grid_to_world s \<and> last res = grid_to_world n"
proof -
  from g obtain v where v: "g_score st n = Some v" by auto
  obtain k :: nat where k: "v < real k" using reals_Archimedean2 by blast
  from reconstruct_loop_total [OF inv v k, of "[]"]
  obtain ps where "reconstruct_loop (came_from st) (Some n) [] = Some ps" and "ps \<noteq> []"
    and "last ps = grid_to_world s" and "hd ps = grid_to_world n" by auto
  then show ?thesis by (simp add: reconstruct_path_def hd_rev last_rev)
qed

lemma astar_cover_reaches: "astar_cover g s cs st \<Longrightarrow> g_score st n \<noteq> None \<Longrightarrow> reaches g s n"
  unfolding astar_cover_def by blast

lemma astar_cover_seen:
  "astar_cover g s cs st \<Longrightarrow> g_score st n \<noteq> None \<Longrightarrow> n \<in> closed_set st \<or> n \<in> open_nodes st"
  unfolding astar_cover_def by blast

lemma astar_cover_next:
  "astar_cover g s cs st \<Longrightarrow> c \<in> cs \<Longrightarrow> d \<in> set directions \<Longrightarrow>
     in_bounds (fst c + fst d, snd c + snd d) \<Longrightarrow> cell g (fst c + fst d, snd c + snd d) \<noteq> 1 \<Longrightarrow>
     g_score st (fst c + fst d, snd c + snd d) \<noteq> None"
  unfolding astar_cover_def by blast

lemma astar_cover_init: "astar_cover g s {} (astar_init s e)"
  by (auto simp: astar_cover_def astar_init_def Let_def open_nodes_def intro: reaches_start
           split: if_splits)

lemma astar_relax_cover:
  assumes cov: "astar_cover g s cs st" and d: "d \<in> set directions" and rc: "reaches g s c"
    and r: "astar_relax g e c st d = Inr st'"
  shows "astar_cover g s cs st' \<and> closed_set st' = closed_set st \<and>
         (\<forall>n. g_score st n \<noteq> None \<longrightarrow> g_score st' n \<noteq> None) \<and>
         (in_bounds (fst c + fst d, snd c + snd d) \<and> cell g (fst c + fst d, snd c + snd d) \<noteq> 1 \<longrightarrow>
            g_score st' (fst c + fst d, snd c + snd d) \<noteq> None)"
proof -
  let ?nb = "(fst c + fst d, snd c + snd d)"
  show ?thesis
  proof (cases "in_bounds ?nb \<and> cell g ?nb \<noteq> 1")
    case False
    then have "st' = st" using r by (auto simp: astar_relax_def Let_def split: if_splits)
    then show ?thesis using cov False by blast
  next
    case free: True
    then obtain g_c where g_c: "g_score st c = Some g_c"
      using r by (auto simp: astar_relax_def Let_def split: option.splits)
    let ?t = "g_c + move_cost d"
    show ?thesis
    proof (cases "case g_score st ?nb of None \<Rightarrow> True | Some g_old \<Rightarrow> ?t < g_old")
      case False
      then have same: "st' = st" using r free g_c by (auto simp: astar_relax_def Let_def)
      from False have "g_score st ?nb \<noteq> None" by (auto split: option.splits)
      then show ?thesis using cov same by simp
    next
      case True
      let ?st' = "st\<lparr>came_from := (came_from st)(?nb \<mapsto> Some c),
                     g_score := (g_score st)(?nb \<mapsto> ?t),
                     open_list := open_list st @ [(?t + heuristic ?nb e, heuristic ?nb e, ?nb)]\<rparr>"
      have st': "st' = ?st'" using r free g_c True by (simp add: astar_relax_def Let_def)
      have rnb: "reaches g s ?nb" using reaches_step [OF rc d refl] free by simp
      have on: "open_nodes ?st' = insert ?nb (open_nodes st)" by (auto simp: open_nodes_def)
      have p1: "reaches g s n \<and> (n \<in> closed_set ?st' \<or> n \<in> open_nodes ?st')"
        if "g_score ?st' n \<noteq> None" for n
      proof (cases "n = ?nb")
        case True
        then show ?thesis using rnb on by simp
      next
        case False
        then have gn: "g_score st n \<noteq> None" using that by simp
        have "reaches g s n" by (rule astar_cover_reaches [OF cov gn])
        moreover have "n \<in> closed_set st \<or> n \<in> open_nodes st"
          by (rule astar_cover_seen [OF cov gn])
        ultimately show ?thesis unfolding on by auto
      qed
      have p2: "g_score ?st' (fst b + fst d', snd b + snd d') \<noteq> None"
        if "b \<in> cs" "d' \<in> set directions" "in_bounds (fst b + fst d', snd b + snd d')"
           "cell g (fst b + fst d', snd b + snd d') \<noteq> 1" for b d'
        using astar_cover_next [OF cov that] by simp
      have "astar_cover g s cs ?st'"
        unfolding astar_cover_def using p1 p2 by blast
      then show ?thesis unfolding st' by simp
    qed
  qed
qed

lemma astar_neighbors_cover:
  assumes "astar_cover g s cs st" and "set ds \<subseteq> set directions" and "reaches g s c"
    and "astar_neighbors g e c st ds = Inr st'"
  shows "astar_cover g s cs st' \<and> closed_set st' = closed_set st \<and>
         (\<forall>n. g_score st n \<noteq> None \<longrightarrow> g_score st' n \<noteq> None) \<and>
         (\<forall>d \<in> set ds.
            in_bounds (fst c + fst d, snd c + snd d) \<and> cell g (fst c + fst d, snd c + snd d) \<noteq> 1 \<longrightarrow>
            g_score st' (fst c + fst d, snd c + snd d) \<noteq> None)"
  using assms
proof (induction ds arbitrary: st)
  case Nil
  then show ?case by simp
next
  case (Cons d ds)
  from Cons.prems(4) obtain st1 where r: "astar_relax g e c st d = Inr st1"
    and n: "astar_neighbors g e c st1 ds = Inr st'"
    by (auto split: sum.splits)
  have d: "d \<in> set directions" and ds: "set ds \<subseteq> set directions" using Cons.prems(2) by auto
  note a = astar_relax_cover [OF Cons.prems(1) d Cons.prems(3) r]
  from a have cov1: "astar_cover g s cs st1" by blast
  note b = Cons.IH [OF cov1 ds Cons.prems(3) n]
  show ?case using a b by auto
qed

lemma in_open_nodes_remove1:
  assumes "n \<in> open_nodes st" and "n \<noteq> c"
  shows "n \<in> open_nodes (st\<lparr>open_list := remove1 (f, h, c) (open_list st)\<rparr>)"
proof -
  from assms(1) obtain x where x: "x \<in> set (open_list st)" and n: "n = snd (snd x)"
    by (auto simp: open_nodes_def)
  have "x \<noteq> (f, h, c)" using n assms(2) by auto
  then have "x \<in> set (remove1 (f, h, c) (open_list st))" using x by simp
  then show ?thesis using n by (auto simp: open_nodes_def)
qed

lemma astar_cover_skip:
  assumes cov: "astar_cover g s (closed_set st) st" and c: "c \<in> closed_set st"
  shows "astar_cover g s (closed_set st) (st\<lparr>open_list := remove1 (f, h, c) (open_list st)\<rparr>)"
proof -
  let ?st1 = "st\<lparr>open_list := remove1 (f, h, c) (open_list st)\<rparr>"
  have p1: "reaches g s n \<and> (n \<in> closed_set ?st1 \<or> n \<in> open_nodes ?st1)"
    if "g_score ?st1 n \<noteq> None" for n
  proof -
    from that have gn: "g_score st n \<noteq> None" by simp
    show ?thesis
    proof (cases "n = c")
      case True
      then show ?thesis using astar_cover_reaches [OF cov gn] c by simp
    next
      case False
      then show ?thesis
        using astar_cover_reaches [OF cov gn] astar_cover_seen [OF cov gn]
          in_open_nodes_remove1 [where n = n and st = st and c = c and f = f and h = h] by auto
    qed
  qed
  have p2: "g_score ?st1 (fst b + fst d, snd b + snd d) \<noteq> None"
    if "b \<in> closed_set st" "d \<in> set directions" "in_bounds (fst b + fst d, snd b + snd d)"
       "cell g (fst b + fst d, snd b + snd d) \<noteq> 1" for b d
    using astar_cover_next [OF cov that] by simp
  show ?thesis unfolding astar_cover_def using p1 p2 by blast
qed

lemma astar_cover_close:
  assumes cov: "astar_cover g s (closed_set st) st"
  shows "astar_cover g s (closed_set st)
           (st\<lparr>open_list := remove1 (f, h, c) (open_list st),
               closed_set := insert c (closed_set st)\<rparr>)"
proof -
  let ?st1 = "st\<lparr>open_list := remove1 (f, h, c) (open_list st),
                  closed_set := insert c (closed_set st)\<rparr>"
  have p1: "reaches g s n \<and> (n \<in> closed_set ?st1 \<or> n \<in> open_nodes ?st1)"
    if "g_score ?st1 n \<noteq> None" for n
  proof -
    from that have gn: "g_score st n \<noteq> None" by simp
    have on: "open_nodes ?st1 = open_nodes (st\<lparr>open_list := remove1 (f, h, c) (open_list st)\<rparr>)"
      by (simp add: open_nodes_def)
    show ?thesis
    proof (cases "n = c")
      case True
      then show ?thesis using astar_cover_reaches [OF cov gn] by simp
    next
      case False
      then show ?thesis
        using astar_cover_reaches [OF cov gn] astar_cover_seen [OF cov gn]
          in_open_nodes_remove1 [where n = n and st = st and c = c and f = f and h = h] on by auto
    qed
  qed
  have p2: "g_score ?st1 (fst b + fst d, snd b + snd d) \<noteq> None"
    if "b \<in> closed_set st" "d \<in> set directions" "in_bounds (fst b + fst d, snd b + snd d)"
       "cell g (fst b + fst d, snd b + snd d) \<noteq> 1" for b d
    using astar_cover_next [OF cov that] by simp
  show ?thesis unfolding astar_cover_def using p1 p2 by blast
qed

lemma astar_cover_exhausted:
  assumes inv: "astar_inv s st" and cov: "astar_cover g s (closed_set st) st"
    and empty: "open_list st = []" and r: "reaches g s n"
  shows "n \<in> closed_set st"
  using r
proof (induction rule: reaches.induct)
  case reaches_start
  have "g_score st s \<noteq> None" using astar_inv_start [OF inv] by simp
  from astar_cover_seen [OF cov this] show ?case using empty by (simp add: open_nodes_def)
next
  case (reaches_step n d m)
  have "g_score st m \<noteq> None"
    using astar_cover_next [OF cov reaches_step.IH reaches_step.hyps(2)] reaches_step.hyps(3,4,5)
    by simp
  from astar_cover_seen [OF cov this] show ?case using empty by (simp add: open_nodes_def)
qed

lemma heappop_None: "heappop q = None \<Longrightarrow> q = []"
  by (auto simp: heappop_def Let_def split: list.splits)

lemma astar_loop_complete:
  "astar_inv s st \<Longrightarrow> astar_cover g s (closed_set st) st \<Longrightarrow> e \<notin> closed_set st \<Longrightarrow>
     \<exists>res. astar_loop g e st = Some (Inr res) \<and>
           (if reaches g s e
            then res \<noteq> [] \<and> hd res = grid_to_world s \<and> last res = grid_to_world e
            else res = [])"
proof (induction g e st rule: astar_loop.induct)
  case (1 g e st)
  note inv = "1.prems"(1) and cov = "1.prems"(2) and open_e = "1.prems"(3)
  show ?case
  proof (cases "heappop (open_list st)")
    case None
    then have "open_list st = []" by (rule heappop_None)
    then have "\<not> reaches g s e" using astar_cover_exhausted [OF inv cov] open_e by blast
    moreover have "astar_loop g e st = Some (Inr [])" using None by (subst astar_loop.simps) simp
    ultimately show ?thesis by simp
  next
    case (Some a)
    obtain f h c rest where a: "a = ((f, h, c), rest)" by (cases a) auto
    note pop = Some [unfolded a]
    have mem: "(f, h, c) \<in> set (open_list st)" and rest: "rest = remove1 (f, h, c) (open_list st)"
      using heappop_Some [OF pop] by auto
    have sub: "set rest \<subseteq> set (open_list st)" using rest set_remove1_subset by fast
    have gc: "g_score st c \<noteq> None" using astar_inv_open [OF inv mem] by simp
    have rc: "reaches g s c" using astar_cover_reaches [OF cov gc] .
    show ?thesis
    proof (cases "c = e")
      case True
      from reconstruct_path_total [OF inv gc]
      obtain res where "reconstruct_path (came_from st) c = Some res" and "res \<noteq> []"
        and "hd res = grid_to_world s" and "last res = grid_to_world c" by blast
      moreover have "astar_loop g e st = map_option Inr (reconstruct_path (came_from st) c)"
        using pop True by (subst astar_loop.simps) simp
      ultimately show ?thesis using True rc by simp
    next
      case ne: False
      show ?thesis
      proof (cases "c \<in> closed_set st")
        case True
        let ?st1 = "st\<lparr>open_list := rest\<rparr>"
        have eq: "astar_loop g e st = astar_loop g e ?st1"
          using pop ne True by (subst astar_loop.simps) simp
        have i1: "astar_inv s ?st1" using inv sub by (rule astar_inv_pop)
        have c1: "astar_cover g s (closed_set ?st1) ?st1"
          using astar_cover_skip [OF cov True, where f = f and h = h] rest by simp
        have e1: "e \<notin> closed_set ?st1" using open_e by simp
        from "1.IH"(1) [OF pop refl refl refl ne True i1 c1 e1] show ?thesis unfolding eq .
      next
        case False
        let ?st1 = "st\<lparr>open_list := rest, closed_set := insert c (closed_set st)\<rparr>"
        have i1: "astar_inv s ?st1" using inv sub by (rule astar_inv_pop)
        have g1: "g_score ?st1 c \<noteq> None" using gc by simp
        from astar_neighbors_inv [OF i1 subset_refl g1, of g e]
        obtain st' where nb: "astar_neighbors g e c ?st1 directions = Inr st'"
          and i': "astar_inv s st'" by blast
        have eq: "astar_loop g e st = astar_loop g e st'"
          using pop ne False nb by (subst astar_loop.simps) simp
        have c1: "astar_cover g s (closed_set st) ?st1"
          using astar_cover_close [OF cov, where f = f and h = h and c = c] rest by simp
        note n = astar_neighbors_cover [OF c1 subset_refl rc nb]
        have cl: "closed_set st' = insert c (closed_set st)" using n by simp
        have old: "astar_cover g s (closed_set st) st'" using n by blast
        have new: "\<forall>d \<in> set directions.
            in_bounds (fst c + fst d, snd c + snd d) \<and> cell g (fst c + fst d, snd c + snd d) \<noteq> 1 \<longrightarrow>
            g_score st' (fst c + fst d, snd c + snd d) \<noteq> None" using n by blast
        have c': "astar_cover g s (closed_set st') st'"
          unfolding cl astar_cover_def
          using old new unfolding astar_cover_def by (auto simp: cl)
        have e': "e \<notin> closed_set st'" using open_e ne cl by simp
        from "1.IH"(2) [OF pop refl refl refl ne False nb i' c' e'] show ?thesis unfolding eq .
      qed
    qed
  qed
qed


lemma nfc_visit_in_bounds:
  "queue_in_bounds (fst qv) \<Longrightarrow> queue_in_bounds (fst (nfc_visit target dst xy qv d))"
  by (auto simp: nfc_visit_def Let_def queue_in_bounds_def)

lemma nfc_fold_in_bounds:
  "queue_in_bounds (fst qv) \<Longrightarrow> queue_in_bounds (fst (foldl (nfc_visit target dst xy) qv ds))"
  by (induction ds arbitrary: qv) (simp_all add: nfc_visit_in_bounds)

lemma nfc_loop_free:
  "queue_in_bounds (fst qv) \<Longrightarrow> nfc_loop g target r qv = Some n \<Longrightarrow> cell g n = 0 \<and> in_bounds n"
proof (induction g target r qv rule: nfc_loop.induct)
  case (1 g target r qv)
  show ?case
  proof (cases "heappop (fst qv)")
    case None
    then show ?thesis using "1.prems"(2) by (subst (asm) nfc_loop.simps) simp
  next
    case (Some a)
    obtain prio dst xy rest where a: "a = ((prio, dst, xy), rest)" by (cases a) auto
    note pop = Some [unfolded a]
    have mem: "(prio, dst, xy) \<in> set (fst qv)" and rest: "rest = remove1 (prio, dst, xy) (fst qv)"
      using heappop_Some [OF pop] by auto
    have xyb: "in_bounds xy" using "1.prems"(1) mem by (force simp: queue_in_bounds_def)
    have rb: "queue_in_bounds rest"
      using "1.prems"(1) rest set_remove1_subset [of "(prio, dst, xy)" "fst qv"]
      by (auto simp: queue_in_bounds_def)
    show ?thesis
    proof (cases "cell g xy = 0")
      case True
      then have "nfc_loop g target r qv = Some xy" using pop by (subst nfc_loop.simps) simp
      then show ?thesis using "1.prems"(2) True xyb by simp
    next
      case nf: False
      show ?thesis
      proof (cases "r \<le> dst")
        case True
        have eq: "nfc_loop g target r qv = nfc_loop g target r (rest, snd qv)"
          using pop nf True by (subst nfc_loop.simps) simp
        show ?thesis
          using "1.IH"(1) [OF pop refl refl refl nf True] rb "1.prems"(2) unfolding eq by simp
      next
        case False
        let ?qv' = "foldl (nfc_visit target dst xy) (rest, snd qv) directions"
        have eq: "nfc_loop g target r qv = nfc_loop g target r ?qv'"
          using pop nf False by (subst nfc_loop.simps) simp
        have "queue_in_bounds (fst ?qv')" using rb nfc_fold_in_bounds [of "(rest, snd qv)"] by simp
        then show ?thesis
          using "1.IH"(2) [OF pop refl refl refl nf False] "1.prems"(2) unfolding eq by simp
      qed
    qed
  qed
qed

lemma in_bounds_clamp_node: "in_bounds (clamp_node n)"
  by (auto simp: in_bounds_def clamp_node_def grid_width_def grid_height_def
        SCREEN_WIDTH_def SCREEN_HEIGHT_def GRID_SIZE_def)

lemma find_nearest_free_cell_free:
  "in_bounds start_node \<Longrightarrow> find_nearest_free_cell g start_node target_node = Some n \<Longrightarrow>
     cell g n = 0 \<and> in_bounds n"
  unfolding find_nearest_free_cell_def
  by (rule nfc_loop_free) (simp_all add: queue_in_bounds_def)

lemma world_to_grid_to_world: "world_to_grid (grid_to_world n) = n"
proof -
  have "\<lfloor>(real_of_int (i * 20) + 20 / 2) / 20\<rfloor> = i" for i :: int
  proof -
    have "(real_of_int (i * 20) + 20 / 2) / 20 = real_of_int i + 1 / 2" by simp
    then show ?thesis by (simp add: floor_eq_iff)
  qed
  then show ?thesis by (cases n) (simp add: world_to_grid_def grid_to_world_def GRID_SIZE_def)
qed


lemma heappop_Cons: "heappop (x # xs) = Some (fold min xs x, remove1 (fold min xs x) (x # xs))"
  by (simp add: heappop_def Let_def)

lemma heappop_Nil: "heappop [] = None"
  by (simp add: heappop_def)

lemma sqrt2_lower: "1.4 < sqrt 2"
  by (rule real_less_rsqrt) (simp add: power2_eq_square)

lemma sqrt5_lower: "2 < sqrt 5"
  by (rule real_less_rsqrt) (simp add: power2_eq_square)

lemma cell_grid1:
  "0 \<le> x \<Longrightarrow> x < 50 \<Longrightarrow> 0 \<le> y \<Longrightarrow> y < 40 \<Longrightarrow>
     cell grid1 (x, y) = (if x = 0 \<and> y = 0 then 1 else 0)"
  by (auto simp: cell_def grid1_def nth_list_update)

lemma find_nearest_free_cell_grid1: "find_nearest_free_cell grid1 (0, 0) (2, 0) = Some (1, 0)"
  using sqrt2_lower sqrt5_lower
  by (simp add: find_nearest_free_cell_def nfc_loop.simps heappop_Cons heappop_Nil cell_grid1
       grid_width_def grid_height_def SCREEN_WIDTH_def SCREEN_HEIGHT_def GRID_SIZE_def
       heuristic_def directions_def nfc_visit_def Let_def in_bounds_def move_cost_def move_costs_def)

lemma find_path_grid1: "find_path grid1 (5, 5) (50, 10) = Some (Inr [(30, 10), (50, 10)])"
  using sqrt2_lower sqrt5_lower
  by (simp add: find_path_def Let_def world_to_grid_def clamp_node_def find_nearest_free_cell_grid1
       astar_init_def astar_loop.simps heappop_Cons heappop_Nil cell_grid1
       grid_width_def grid_height_def SCREEN_WIDTH_def SCREEN_HEIGHT_def GRID_SIZE_def
       heuristic_def directions_def astar_relax_def in_bounds_def move_cost_def move_costs_def
       reconstruct_path_def reconstruct_loop_None reconstruct_loop_Some grid_to_world_def)

lemma sqrt10_lower: "2 < sqrt 10"
  by (rule real_less_rsqrt) (simp add: power2_eq_square)

lemma cell_grid2:
  "0 \<le> x \<Longrightarrow> x < 50 \<Longrightarrow> 0 \<le> y \<Longrightarrow> y < 40 \<Longrightarrow>
     cell grid2 (x, y) = (if (x = 1 \<or> x = 3) \<and> y = 0 then 0 else 1)"
  by (auto simp: cell_def grid2_def nth_list_update)

lemma find_nearest_free_cell_grid2: "find_nearest_free_cell grid2 (0, 0) (3, 0) = Some (1, 0)"
  using sqrt5_lower sqrt10_lower
  by (simp add: find_nearest_free_cell_def nfc_loop.simps heappop_Cons heappop_Nil cell_grid2
       grid_width_def grid_height_def SCREEN_WIDTH_def SCREEN_HEIGHT_def GRID_SIZE_def
       heuristic_def directions_def nfc_visit_def Let_def in_bounds_def move_cost_def move_costs_def)

lemma find_path_grid2: "find_path grid2 (5, 5) (70, 10) = Some (Inr [])"
  by (simp add: find_path_def Let_def world_to_grid_def clamp_node_def find_nearest_free_cell_grid2
       astar_init_def astar_loop.simps heappop_Cons heappop_Nil cell_grid2
       grid_width_def grid_height_def SCREEN_WIDTH_def SCREEN_HEIGHT_def GRID_SIZE_def
       heuristic_def directions_def astar_relax_def in_bounds_def move_cost_def move_costs_def)

lemma reaches_grid1: "reaches grid1 (1, 0) (2, 0)"
  by (rule reaches_step [OF reaches_start, where d = "(1, 0)"])
     (simp_all add: directions_def in_bounds_def cell_grid1 grid_width_def grid_height_def
        SCREEN_WIDTH_def SCREEN_HEIGHT_def GRID_SIZE_def)




end
